theory Spec2Isabelle
  imports Main "HOL-Library.Sublist"
begin

section \<open>Strings and exceptions\<close>

text \<open>
  Python strings are modelled as \<^typ>\<open>string\<close>, lists of 8-bit characters: the model
  covers ASCII text, for which \<open>str.upper\<close>, \<open>str.lower\<close> and \<open>len\<close> act per
  character. \<open>sep.join(xs)\<close> is \<open>join sep xs\<close>, \<open>s.startswith(p)\<close> is
  \<^term>\<open>prefix p s\<close> and \<open>s.endswith(p)\<close> is \<^term>\<open>suffix p s\<close>.
\<close>

definition upper_letters :: string where
  "upper_letters = ''ABCDEFGHIJKLMNOPQRSTUVWXYZ''"

definition lower_letters :: string where
  "lower_letters = ''abcdefghijklmnopqrstuvwxyz''"

definition lower_char :: "char \<Rightarrow> char" where
  "lower_char c = (case map_of (zip upper_letters lower_letters) c of Some d \<Rightarrow> d | None \<Rightarrow> c)"

definition upper_char :: "char \<Rightarrow> char" where
  "upper_char c = (case map_of (zip lower_letters upper_letters) c of Some d \<Rightarrow> d | None \<Rightarrow> c)"

definition lower :: "string \<Rightarrow> string" where
  "lower s = map lower_char s"

definition upper :: "string \<Rightarrow> string" where
  "upper s = map upper_char s"

fun join :: "string \<Rightarrow> string list \<Rightarrow> string" where
  "join sep [] = []"
| "join sep [x] = x"
| "join sep (x # y # ys) = x @ sep @ join sep (y # ys)"

text \<open>\<open>str(n)\<close> for an integer: decimal digits, with a minus sign when negative.\<close>

fun str_nat :: "nat \<Rightarrow> string" where
  "str_nat n = (if n < 10 then [''0123456789'' ! n]
                else str_nat (n div 10) @ [''0123456789'' ! (n mod 10)])"

declare str_nat.simps [simp del]

definition str_int :: "int \<Rightarrow> string" where
  "str_int i = (if i < 0 then CHR ''-'' # str_nat (nat (- i)) else str_nat (nat i))"

text \<open>Truthiness of an optional string: \<open>None\<close> and \<open>''\<close> are falsy.\<close>

fun truthy :: "string option \<Rightarrow> bool" where
  "truthy None = False"
| "truthy (Some s) = (s \<noteq> [])"

text \<open>\<open>str(x)\<close> as an f-string prints an optional string: \<open>None\<close> prints as \<open>None\<close>.\<close>

fun str_opt :: "string option \<Rightarrow> string" where
  "str_opt None = ''None''"
| "str_opt (Some s) = s"

text \<open>
  The exceptions of \<open>query.py\<close>, the two raised by the validators of
  \<open>firepit.validate\<close> (\<open>InvalidName\<close>, \<open>InvalidPath\<close>), and the two built-in
  exceptions the code can run into on a value of the wrong type.
\<close>

datatype error =
    InvalidComparisonOperator string
  | InvalidPredicateOperator string
  | InvalidJoinOperator string
  | InvalidAggregateFunction string
  | InvalidQuery string
  | InvalidName string
  | InvalidPath string
  | AttributeError
  | TypeError

definition ebind :: "error + 'a \<Rightarrow> ('a \<Rightarrow> error + 'b) \<Rightarrow> error + 'b" where
  "ebind m f = (case m of Inl e \<Rightarrow> Inl e | Inr x \<Rightarrow> f x)"

text \<open>A loop that calls a fallible function on each element and stops at the first raise.\<close>

fun map_err :: "('a \<Rightarrow> error + 'b) \<Rightarrow> 'a list \<Rightarrow> error + 'b list" where
  "map_err f [] = Inr []"
| "map_err f (x # xs) =
     (case f x of Inl e \<Rightarrow> Inl e
      | Inr y \<Rightarrow> (case map_err f xs of Inl e \<Rightarrow> Inl e | Inr ys \<Rightarrow> Inr (y # ys)))"

fun each_err :: "('a \<Rightarrow> error + unit) \<Rightarrow> 'a list \<Rightarrow> error + unit" where
  "each_err f [] = Inr ()"
| "each_err f (x # xs) = (case f x of Inl e \<Rightarrow> Inl e | Inr _ \<Rightarrow> each_err f xs)"

section \<open>The validators\<close>

text \<open>
  \<open>validate_name\<close> and \<open>validate_path\<close> live in \<open>firepit.validate\<close>, outside
  \<open>query.py\<close>. They are parameters of the model: a pair of predicates that say which
  strings are accepted; a rejected string raises.
\<close>

record validators =
  validate_name :: "string \<Rightarrow> bool"
  validate_path :: "string \<Rightarrow> bool"

definition check_name :: "validators \<Rightarrow> string \<Rightarrow> error + unit" where
  "check_name V s = (if validate_name V s then Inr () else Inl (InvalidName s))"

definition check_path :: "validators \<Rightarrow> string \<Rightarrow> error + unit" where
  "check_path V s = (if validate_path V s then Inr () else Inl (InvalidPath s))"

definition ident_char :: "char \<Rightarrow> bool" where
  "ident_char c = (c \<in> set upper_letters \<or> c \<in> set lower_letters
                   \<or> c \<in> set ''0123456789'' \<or> c = CHR ''_'')"

text \<open>
  Modelled from the spec: the bodies of \<open>validate_name\<close> and \<open>validate_path\<close> are
  missing. The spec gives their grammar: letters, digits and underscore for a bare
  identifier; dot-separated segments of these, with an optional trailing multi-valued
  marker \<open>[*]\<close>, for a property path. These two are used for concrete examples only;
  every general theorem below holds for all validators.
\<close>

definition spec_validate_name :: "string \<Rightarrow> bool" where
  "spec_validate_name s = (s \<noteq> [] \<and> list_all ident_char s)"

definition spec_validate_path :: "string \<Rightarrow> bool" where
  "spec_validate_path s =
     (let p = (if suffix ''[*]'' s then take (length s - 3) s else s)
      in p \<noteq> [] \<and> list_all (\<lambda>c. ident_char c \<or> c = CHR ''.'') p
         \<and> hd p \<noteq> CHR ''.'' \<and> last p \<noteq> CHR ''.'')"

definition spec_validators :: validators where
  "spec_validators = \<lparr>validate_name = spec_validate_name, validate_path = spec_validate_path\<rparr>"

section \<open>Columns\<close>

record Column =
  col_name :: string
  col_table :: "string option"
  col_alias :: "string option"

record CoalescedColumn =
  cc_names :: "string list"
  cc_alias :: string

text \<open>
  A column specifier as the clause constructors take it: a plain string, a \<open>Column\<close>
  or a \<open>CoalescedColumn\<close>.
\<close>

datatype colspec = CName string | CColumn Column | CCoalesced CoalescedColumn

definition validate_column_name :: "validators \<Rightarrow> string \<Rightarrow> error + unit" where
  "validate_column_name V name = (if name \<noteq> ''*'' then check_path V name else Inr ())"

definition validate_column :: "validators \<Rightarrow> colspec \<Rightarrow> error + unit" where
  "validate_column V col =
     (case col of
        CName s \<Rightarrow> validate_column_name V s
      | CColumn c \<Rightarrow>
          ebind (validate_column_name V (col_name c)) (\<lambda>_.
          ebind (if truthy (col_table c) then check_name V (the (col_table c)) else Inr ()) (\<lambda>_.
          (if truthy (col_alias c) then check_path V (the (col_alias c)) else Inr ())))
      | CCoalesced _ \<Rightarrow> Inr ())"

definition quote_str :: "string \<Rightarrow> string" where
  "quote_str s = (if s = ''*'' then s else ''\"'' @ s @ ''\"'')"

definition Column_init ::
  "validators \<Rightarrow> string \<Rightarrow> string option \<Rightarrow> string option \<Rightarrow> error + Column" where
  "Column_init V name table alias =
     ebind (validate_column_name V name) (\<lambda>_.
     ebind (if truthy table then check_name V (the table) else Inr ()) (\<lambda>_.
     ebind (if truthy alias then check_path V (the alias) else Inr ()) (\<lambda>_.
     Inr \<lparr>col_name = name, col_table = table, col_alias = alias\<rparr>)))"

definition Column_str :: "Column \<Rightarrow> string" where
  "Column_str c =
     (let result = (if truthy (col_table c)
                    then ''\"'' @ the (col_table c) @ ''\".'' @ quote_str (col_name c)
                    else quote_str (col_name c))
      in if truthy (col_alias c) then result @ '' AS \"'' @ the (col_alias c) @ ''\"''
         else result)"

definition CoalescedColumn_init ::
  "validators \<Rightarrow> string list \<Rightarrow> string \<Rightarrow> error + CoalescedColumn" where
  "CoalescedColumn_init V names alias =
     ebind (each_err (validate_column_name V) names) (\<lambda>_.
     ebind (check_path V alias) (\<lambda>_.
     Inr \<lparr>cc_names = names, cc_alias = alias\<rparr>))"

definition CoalescedColumn_str :: "CoalescedColumn \<Rightarrow> string" where
  "CoalescedColumn_str c =
     ''COALESCE('' @ join '', '' (cc_names c) @ '') AS \"'' @ cc_alias c @ ''\"''"

text \<open>\<open>str(col)\<close> and \<open>_quote(col)\<close> of a column specifier.\<close>

fun colspec_str :: "colspec \<Rightarrow> string" where
  "colspec_str (CName s) = s"
| "colspec_str (CColumn c) = Column_str c"
| "colspec_str (CCoalesced c) = CoalescedColumn_str c"

fun quote :: "colspec \<Rightarrow> string" where
  "quote (CName s) = quote_str s"
| "quote (CColumn c) = Column_str c"
| "quote (CCoalesced c) = CoalescedColumn_str c"

section \<open>Predicates\<close>

text \<open>
  The values a caller passes as the right-hand side of a predicate: \<open>None\<close>, a string,
  an integer, a list or tuple, or a \<open>Column\<close>. The left-hand side is a string or a
  \<open>Column\<close> (which has its own \<open>endswith\<close>).
\<close>

datatype pyval = PNone | PStr string | PInt int | PSeq "pyval list" | PColumn Column

datatype lhs = LStr string | LColumn Column

record Predicate =
  p_lhs :: lhs
  p_op :: string
  p_rhs :: pyval
  p_values :: "pyval list"

definition COMP_OPS :: "string list" where
  "COMP_OPS = [''='', ''<>'', ''!='', ''<'', ''>'', ''<='', ''>='', ''LIKE'', ''IN'', ''IS'',
               ''IS NOT'']"

definition PRED_OPS :: "string list" where
  "PRED_OPS = [''AND'', ''OR'']"

definition JOIN_TYPES :: "string list" where
  "JOIN_TYPES = [''INNER'', ''OUTER'', ''LEFT OUTER'', ''CROSS'']"

definition AGG_FUNCS :: "string list" where
  "AGG_FUNCS = [''COUNT'', ''SUM'', ''MIN'', ''MAX'', ''AVG'', ''NUNIQUE'']"

fun lhs_endswith :: "lhs \<Rightarrow> string \<Rightarrow> bool" where
  "lhs_endswith (LStr s) x = suffix x s"
| "lhs_endswith (LColumn c) x = suffix x (Column_str c)"

fun quote_lhs :: "lhs \<Rightarrow> string" where
  "quote_lhs (LStr s) = quote_str s"
| "quote_lhs (LColumn c) = Column_str c"

text \<open>\<open>self.rhs in ['null', 'NULL']\<close>: only a string can be equal to one of the two.\<close>

definition is_null :: "pyval \<Rightarrow> bool" where
  "is_null v = (v = PStr ''null'' \<or> v = PStr ''NULL'')"

text \<open>
  Lines 109 to 116 of \<open>Predicate.__init__\<close>, the STIX list property: \<open>lhs[:-3]\<close> on a
  \<open>Column\<close> is a \<open>TypeError\<close>, and \<open>rhs.lower()\<close> on anything but a string is an
  \<open>AttributeError\<close>.
\<close>

definition list_property :: "lhs \<Rightarrow> string \<Rightarrow> pyval \<Rightarrow> error + (lhs \<times> string \<times> pyval)" where
  "list_property l op rhs =
     (if lhs_endswith l ''[*]'' then
        (case l of
           LColumn _ \<Rightarrow> Inl TypeError
         | LStr s \<Rightarrow>
             (case rhs of
                PStr r \<Rightarrow>
                  (if lower r \<noteq> ''null''
                   then Inr (LStr (take (length s - 3) s),
                             (if op = ''='' then ''LIKE''
                              else if op = ''!='' then ''NOT LIKE'' else op),
                             PStr (''%'' @ r @ ''%''))
                   else Inr (LStr (take (length s - 3) s), op, rhs))
              | _ \<Rightarrow> Inl AttributeError))
      else Inr (l, op, rhs))"

definition Predicate_init :: "validators \<Rightarrow> lhs \<Rightarrow> string \<Rightarrow> pyval \<Rightarrow> error + Predicate" where
  "Predicate_init V l0 op0 rhs0 =
     (if op0 \<notin> set COMP_OPS then Inl (InvalidComparisonOperator op0)
      else
        ebind (list_property l0 op0 (if rhs0 = PNone then PStr ''NULL'' else rhs0))
          (\<lambda>(l, op, rhs).
        ebind (case l of LStr s \<Rightarrow> check_path V s | LColumn _ \<Rightarrow> Inr ()) (\<lambda>_.
          if is_null rhs then
            (if op \<notin> set [''='', ''!='', ''<>'', ''IS'', ''IS NOT'']
             then Inl (InvalidComparisonOperator op)
             else Inr \<lparr>p_lhs = l, p_op = op, p_rhs = rhs, p_values = []\<rparr>)
          else
            (case rhs of
               PSeq xs \<Rightarrow> Inr \<lparr>p_lhs = l, p_op = op, p_rhs = rhs, p_values = xs\<rparr>
             | PColumn _ \<Rightarrow> Inr \<lparr>p_lhs = l, p_op = op, p_rhs = rhs, p_values = []\<rparr>
             | _ \<Rightarrow> Inr \<lparr>p_lhs = l, p_op = op, p_rhs = rhs, p_values = [rhs]\<rparr>))))"

text \<open>\<open>len(self.rhs)\<close>, which the \<open>IN\<close> branch of \<open>render\<close> takes.\<close>

fun py_len :: "pyval \<Rightarrow> error + nat" where
  "py_len (PSeq xs) = Inr (length xs)"
| "py_len (PStr s) = Inr (length s)"
| "py_len _ = Inl TypeError"

definition Predicate_render :: "Predicate \<Rightarrow> string \<Rightarrow> error + string" where
  "Predicate_render p placeholder =
     (if is_null (p_rhs p) then
        (if p_op p \<in> set [''!='', ''<>''] then Inr (''('' @ quote_lhs (p_lhs p) @ '' IS NOT NULL)'')
         else if p_op p = ''='' then Inr (''('' @ quote_lhs (p_lhs p) @ '' IS NULL)'')
         else Inl (InvalidComparisonOperator (p_op p)))
      else
        (case p_rhs p of
           PColumn c \<Rightarrow>
             Inr (''('' @ quote_lhs (p_lhs p) @ '' '' @ p_op p @ '' '' @ Column_str c @ '')'')
         | _ \<Rightarrow>
             (if p_op p = ''IN'' then
                ebind (py_len (p_rhs p)) (\<lambda>n.
                  Inr (''('' @ quote_lhs (p_lhs p) @ '' '' @ p_op p @ '' (''
                       @ join '', '' (replicate n placeholder) @ ''))''))
              else Inr (''('' @ quote_lhs (p_lhs p) @ '' '' @ p_op p @ '' '' @ placeholder
                        @ '')''))))"

section \<open>The other clauses\<close>

record Filter =
  f_preds :: "Predicate list"
  f_op :: string
  f_values :: "pyval list"

definition Filter_OR :: string where
  "Filter_OR = '' OR ''"

definition Filter_AND :: string where
  "Filter_AND = '' AND ''"

definition Filter_init :: "Predicate list \<Rightarrow> string \<Rightarrow> Filter" where
  "Filter_init preds op =
     \<lparr>f_preds = preds, f_op = op, f_values = concat (map p_values preds)\<rparr>"

definition Filter_render :: "Filter \<Rightarrow> string \<Rightarrow> error + string" where
  "Filter_render f placeholder =
     ebind (map_err (\<lambda>p. Predicate_render p placeholder) (f_preds f)) (\<lambda>pred_list.
       let result = join (f_op f) pred_list
       in if f_op f = Filter_OR then Inr (''('' @ result @ '')'') else Inr result)"

text \<open>
  \<open>Order\<close>: an entry of the argument is a (path, direction) tuple or a bare path, which
  gets the direction \<open>ASC\<close>.
\<close>

datatype order_arg = OTuple string string | OName string

definition Order_ASC :: string where
  "Order_ASC = ''ASC''"

definition Order_DESC :: string where
  "Order_DESC = ''DESC''"

fun Order_init :: "validators \<Rightarrow> order_arg list \<Rightarrow> error + (string \<times> string) list" where
  "Order_init V [] = Inr []"
| "Order_init V (OTuple c d # cols) =
     ebind (check_path V c) (\<lambda>_. ebind (Order_init V cols) (\<lambda>rest. Inr ((c, d) # rest)))"
| "Order_init V (OName c # cols) =
     ebind (check_path V c) (\<lambda>_. ebind (Order_init V cols) (\<lambda>rest. Inr ((c, Order_ASC) # rest)))"

definition Order_render :: "(string \<times> string) list \<Rightarrow> string" where
  "Order_render cols = join '', '' (map (\<lambda>(c, d). ''\"'' @ c @ ''\" '' @ d) cols)"

definition Projection_init :: "validators \<Rightarrow> colspec list \<Rightarrow> error + colspec list" where
  "Projection_init V cols = ebind (each_err (validate_column V) cols) (\<lambda>_. Inr cols)"

definition Projection_render :: "colspec list \<Rightarrow> string" where
  "Projection_render cols = join '', '' (map quote cols)"

definition Table_init :: "validators \<Rightarrow> string \<Rightarrow> error + string" where
  "Table_init V name = ebind (check_name V name) (\<lambda>_. Inr name)"

definition Group_init :: "validators \<Rightarrow> colspec list \<Rightarrow> error + colspec list" where
  "Group_init V cols = ebind (each_err (validate_column V) cols) (\<lambda>_. Inr cols)"

text \<open>\<open>Group.render\<close> turns a \<open>Column\<close> into a string before quoting it.\<close>

fun group_col :: "colspec \<Rightarrow> colspec" where
  "group_col (CColumn c) =
     (if truthy (col_table c) then CName (the (col_table c) @ ''\".\"'' @ col_name c)
      else CName (col_name c))"
| "group_col col = col"

definition Group_render :: "colspec list \<Rightarrow> string" where
  "Group_render cols = join '', '' (map quote (map group_col cols))"

text \<open>
  \<open>Aggregation\<close>: an entry of the argument is a tuple of three (function, column, alias)
  or of two (function, column); the column may be \<open>None\<close>.
\<close>

datatype agg_arg =
    Agg3 string "colspec option" "string option"
  | Agg2 string "colspec option"

record Aggregation =
  a_aggs :: "(string \<times> colspec option \<times> string option) list"
  a_group_cols :: "colspec list"

fun agg_triple :: "agg_arg \<Rightarrow> string \<times> colspec option \<times> string option" where
  "agg_triple (Agg3 func col alias) = (func, col, alias)"
| "agg_triple (Agg2 func col) = (func, col, None)"

definition check_agg ::
  "validators \<Rightarrow> agg_arg \<Rightarrow> error + (string \<times> colspec option \<times> string option)" where
  "check_agg V agg =
     (case agg_triple agg of (func, col, alias) \<Rightarrow>
        if upper func \<notin> set AGG_FUNCS then Inl (InvalidAggregateFunction func)
        else ebind (case col of None \<Rightarrow> Inr ()
                    | Some c \<Rightarrow> if c \<noteq> CName ''*'' then validate_column V c else Inr ())
               (\<lambda>_. Inr (func, col, alias)))"

definition Aggregation_init :: "validators \<Rightarrow> agg_arg list \<Rightarrow> error + Aggregation" where
  "Aggregation_init V aggs =
     ebind (map_err (check_agg V) aggs) (\<lambda>checked.
       Inr \<lparr>a_aggs = checked, a_group_cols = []\<rparr>)"

text \<open>\<open>not col\<close>: \<open>None\<close> and the empty string are falsy, a column object is truthy.\<close>

fun agg_col :: "colspec option \<Rightarrow> colspec" where
  "agg_col None = CName ''*''"
| "agg_col (Some (CName s)) = (if s = [] then CName ''*'' else CName s)"
| "agg_col (Some c) = c"

definition agg_expr :: "string \<times> colspec option \<times> string option \<Rightarrow> string" where
  "agg_expr agg =
     (case agg of (func0, col0, alias0) \<Rightarrow>
        let func = (if upper func0 = ''NUNIQUE'' then ''COUNT'' else func0);
            modifier = (if upper func0 = ''NUNIQUE'' then ''DISTINCT '' else []);
            col = agg_col col0;
            expr = (if col = CName ''*'' then func @ ''('' @ modifier @ ''*'' @ '')''
                    else func @ ''('' @ modifier @ ''\"'' @ colspec_str col @ ''\")'');
            alias = (if truthy alias0 then the alias0 else lower func)
        in expr @ '' AS \"'' @ alias @ ''\"'')"

definition Aggregation_render :: "Aggregation \<Rightarrow> string" where
  "Aggregation_render a = join '', '' (map quote (a_group_cols a) @ map agg_expr (a_aggs a))"

text \<open>\<open>CountUnique\<close>: \<open>cols\<close> is \<open>None\<close> or a list; \<open>cols or []\<close> and \<open>if self.cols\<close>.\<close>

fun cols_or_empty :: "colspec list option \<Rightarrow> colspec list" where
  "cols_or_empty None = []"
| "cols_or_empty (Some cols) = cols"

definition CountUnique_init ::
  "validators \<Rightarrow> colspec list option \<Rightarrow> error + colspec list option" where
  "CountUnique_init V cols =
     ebind (each_err (validate_column V) (cols_or_empty cols)) (\<lambda>_. Inr cols)"

definition CountUnique_render :: "colspec list option \<Rightarrow> string" where
  "CountUnique_render cols =
     (if cols_or_empty cols \<noteq> []
      then ''COUNT(DISTINCT ''
           @ join '', '' (map (\<lambda>col. ''\"'' @ colspec_str col @ ''\"'') (cols_or_empty cols))
           @ '') AS \"count\"''
      else ''COUNT(*) AS \"count\"'')"

text \<open>
  \<open>Join\<close>: the table names, the join columns and the operator are strings or \<open>None\<close>;
  \<open>preds\<close> is \<open>None\<close> or a list of predicates.
\<close>

record Join =
  j_prev_name :: "string option"
  j_name :: string
  j_left_col :: "string option"
  j_op :: "string option"
  j_right_col :: "string option"
  j_how :: string
  j_alias :: "string option"
  j_values :: "pyval list"
  j_preds :: "Predicate list option"

fun preds_or_empty :: "Predicate list option \<Rightarrow> Predicate list" where
  "preds_or_empty None = []"
| "preds_or_empty (Some ps) = ps"

definition Join_init ::
  "validators \<Rightarrow> string \<Rightarrow> string option \<Rightarrow> string option \<Rightarrow> string option
   \<Rightarrow> Predicate list option \<Rightarrow> string \<Rightarrow> string option \<Rightarrow> string option \<Rightarrow> error + Join" where
  "Join_init V name left_col op right_col preds how alias lhs_name =
     ebind (check_name V name) (\<lambda>_.
     ebind (if truthy left_col \<and> truthy op \<and> truthy right_col
            then ebind (validate_column V (CName (the left_col)))
                   (\<lambda>_. validate_column V (CName (the right_col)))
            else Inr ()) (\<lambda>_.
     ebind (if truthy alias then check_name V (the alias) else Inr ()) (\<lambda>_.
     ebind (if truthy lhs_name then check_name V name else Inr ()) (\<lambda>_.
     if upper how \<notin> set JOIN_TYPES then Inl (InvalidJoinOperator how)
     else Inr \<lparr>j_prev_name = lhs_name, j_name = name, j_left_col = left_col, j_op = op,
               j_right_col = right_col, j_how = how, j_alias = alias,
               j_values = concat (map p_values (preds_or_empty preds)),
               j_preds = preds\<rparr>))))"

definition Join_eq :: "Join \<Rightarrow> Join \<Rightarrow> bool" where
  "Join_eq a b =
     (j_prev_name a = j_prev_name b \<and> j_name a = j_name b \<and> j_left_col a = j_left_col b
      \<and> j_op a = j_op b \<and> j_right_col a = j_right_col b \<and> j_how a = j_how b
      \<and> j_alias a = j_alias b)"

definition Join_render :: "Join \<Rightarrow> string \<Rightarrow> error + string" where
  "Join_render j placeholder =
     (let target = ''\"'' @ j_name j @ ''\"''
                   @ (if truthy (j_alias j) then '' AS \"'' @ the (j_alias j) @ ''\"'' else []);
          table = (if truthy (j_alias j) then ''\"'' @ the (j_alias j) @ ''\"''
                   else ''\"'' @ j_name j @ ''\"'')
      in ebind
           (if truthy (j_left_col j)
            then Inr (''\"'' @ str_opt (j_prev_name j) @ ''\".\"'' @ the (j_left_col j) @ ''\"''
                      @ '' '' @ str_opt (j_op j) @ '' '' @ table @ ''.\"''
                      @ str_opt (j_right_col j) @ ''\"'')
            else (case j_preds j of
                    None \<Rightarrow> Inl TypeError
                  | Some ps \<Rightarrow>
                      ebind (map_err (\<lambda>p. Predicate_render p placeholder) ps)
                        (\<lambda>pred_list. Inr (join '' AND '' pred_list))))
           (\<lambda>cond. Inr (upper (j_how j) @ '' JOIN '' @ target @ '' ON '' @ cond)))"

section \<open>Stages and the Query\<close>

text \<open>
  A stage is one clause object. \<open>Table\<close>, \<open>Projection\<close>, \<open>Group\<close>, \<open>Order\<close>,
  \<open>Limit\<close>, \<open>Offset\<close> and \<open>CountUnique\<close> have a single attribute, which the constructor
  of the stage carries (\<open>Limit\<close> and \<open>Offset\<close> store \<open>int(num)\<close>).
\<close>

datatype stage =
    STable string
  | SProjection "colspec list"
  | SFilter Filter
  | SGroup "colspec list"
  | SAggregation Aggregation
  | SOrder "(string \<times> string) list"
  | SLimit int
  | SOffset int
  | SCount
  | SUnique
  | SCountUnique "colspec list option"
  | SJoin Join

fun is_Projection :: "stage \<Rightarrow> bool" where
  "is_Projection (SProjection _) = True"
| "is_Projection _ = False"

fun stage_render :: "stage \<Rightarrow> string \<Rightarrow> error + string" where
  "stage_render (STable name) placeholder = Inr name"
| "stage_render (SProjection cols) placeholder = Inr (Projection_render cols)"
| "stage_render (SFilter f) placeholder = Filter_render f placeholder"
| "stage_render (SGroup cols) placeholder = Inr (Group_render cols)"
| "stage_render (SAggregation a) placeholder = Inr (Aggregation_render a)"
| "stage_render (SOrder cols) placeholder = Inr (Order_render cols)"
| "stage_render (SLimit num) placeholder = Inr (str_int num)"
| "stage_render (SOffset num) placeholder = Inr (str_int num)"
| "stage_render SCount placeholder = Inr ''COUNT(*) AS \"count\"''"
| "stage_render SUnique placeholder = Inr ''SELECT DISTINCT *''"
| "stage_render (SCountUnique cols) placeholder = Inr (CountUnique_render cols)"
| "stage_render (SJoin j) placeholder = Join_render j placeholder"

record Query =
  stages :: "stage list"
  tables :: "string list"

definition last_stage :: "Query \<Rightarrow> stage option" where
  "last_stage q = (if stages q \<noteq> [] then Some (last (stages q)) else None)"

definition push :: "Query \<Rightarrow> stage \<Rightarrow> Query" where
  "push q stage = q\<lparr>stages := stages q @ [stage]\<rparr>"

text \<open>\<open>self.stages.pop(-1)\<close>, on a list that is not empty wherever the code calls it.\<close>

definition pop :: "Query \<Rightarrow> Query" where
  "pop q = q\<lparr>stages := butlast (stages q)\<rparr>"

text \<open>
  \<open>Query.append\<close>. The method mutates the Query and, in three branches, the stage it is
  given (\<open>group_cols\<close>, \<open>prev_name\<close>, \<open>cols\<close>); the model returns the new Query, which
  holds the updated stage. A raise is \<open>Inl\<close>; the early \<open>return\<close> of the redundant Join
  gives the Query back as it was.
\<close>

definition Query_append :: "validators \<Rightarrow> Query \<Rightarrow> stage \<Rightarrow> error + Query" where
  "Query_append V q stage =
     (case stage of
        SAggregation a \<Rightarrow>
          (if list_ex is_Projection (stages q)
           then Inl (InvalidQuery ''cannot have Aggregation after Projection'')
           else (case last_stage q of
                   Some (SGroup cols) \<Rightarrow> Inr (push q (SAggregation (a\<lparr>a_group_cols := cols\<rparr>)))
                 | _ \<Rightarrow> Inr (push q stage)))
      | SJoin j \<Rightarrow>
          (case last_stage q of
             Some (SJoin l) \<Rightarrow>
               (if Join_eq l j then Inr q
                else if \<not> truthy (j_prev_name j)
                     then Inr (push q (SJoin (j\<lparr>j_prev_name := Some (j_name l)\<rparr>)))
                     else Inr (push q stage))
           | Some (STable name) \<Rightarrow>
               (if \<not> truthy (j_prev_name j)
                then Inr (push q (SJoin (j\<lparr>j_prev_name := Some name\<rparr>)))
                else Inr (push q stage))
           | _ \<Rightarrow> Inl (InvalidQuery ''Join must follow Table or Join''))
      | SCount \<Rightarrow>
          (case last_stage q of
             Some SUnique \<Rightarrow>
               (case last_stage (pop q) of
                  Some (SProjection cols) \<Rightarrow>
                    ebind (CountUnique_init V (Some cols))
                      (\<lambda>cu. Inr (push (pop (pop q)) (SCountUnique cu)))
                | _ \<Rightarrow>
                    ebind (CountUnique_init V None)
                      (\<lambda>cu. Inr (push (pop q) (SCountUnique cu))))
           | _ \<Rightarrow> Inr (push q stage))
      | SCountUnique cols \<Rightarrow>
          (case last_stage q of
             Some (SProjection pcols) \<Rightarrow> Inr (push (pop q) (SCountUnique (Some pcols)))
           | _ \<Rightarrow> Inr (push q stage))
      | STable name \<Rightarrow> Inr (push (q\<lparr>tables := tables q @ [name]\<rparr>) stage)
      | _ \<Rightarrow> Inr (push q stage))"

fun Query_extend :: "validators \<Rightarrow> Query \<Rightarrow> stage list \<Rightarrow> error + Query" where
  "Query_extend V q [] = Inr q"
| "Query_extend V q (stage # rest) = ebind (Query_append V q stage) (\<lambda>q'. Query_extend V q' rest)"

text \<open>\<open>Query(arg)\<close>: no argument, a table name, or a list of stages.\<close>

datatype query_arg = ArgNone | ArgName string | ArgStages "stage list"

definition Query_init :: "validators \<Rightarrow> query_arg \<Rightarrow> error + Query" where
  "Query_init V arg =
     (case arg of
        ArgNone \<Rightarrow> Inr \<lparr>stages = [], tables = []\<rparr>
      | ArgName name \<Rightarrow>
          ebind (Table_init V name)
            (\<lambda>t. Query_append V \<lparr>stages = [], tables = []\<rparr> (STable t))
      | ArgStages sts \<Rightarrow> Query_extend V \<lparr>stages = [], tables = []\<rparr> sts)"

section \<open>Rendering\<close>

text \<open>
  One pass of the loop of \<open>Query.render\<close>: the accumulator holds the locals \<open>query\<close>,
  \<open>values\<close> and \<open>prev\<close>. \<open>re.sub(r'^SELECT ', 'SELECT DISTINCT ', query)\<close> is reached
  only when \<open>query\<close> starts with \<open>SELECT \<close>, and replaces these seven characters.
\<close>

definition render_step ::
  "string \<Rightarrow> string \<times> pyval list \<times> stage option \<Rightarrow> stage
   \<Rightarrow> error + (string \<times> pyval list \<times> stage option)" where
  "render_step placeholder acc stage =
     (case acc of (query, vals, prev) \<Rightarrow>
        ebind (stage_render stage placeholder) (\<lambda>text.
          Inr (case stage of
                 STable _ \<Rightarrow> (''FROM \"'' @ text @ ''\"'', vals, Some stage)
               | SProjection _ \<Rightarrow> (''SELECT '' @ text @ '' '' @ query, vals, Some stage)
               | SFilter f \<Rightarrow>
                   (query @ '' ''
                      @ (case prev of
                           Some (SAggregation _) \<Rightarrow> ''HAVING''
                         | Some (SFilter _) \<Rightarrow> ''AND''
                         | _ \<Rightarrow> ''WHERE'')
                      @ '' '' @ text,
                    vals @ f_values f, Some stage)
               | SGroup _ \<Rightarrow> (query @ '' GROUP BY '' @ text, vals, Some stage)
               | SAggregation _ \<Rightarrow> (''SELECT '' @ text @ '' '' @ query, vals, Some stage)
               | SOrder _ \<Rightarrow> (query @ '' ORDER BY '' @ text, vals, Some stage)
               | SLimit _ \<Rightarrow> (query @ '' LIMIT '' @ text, vals, Some stage)
               | SOffset _ \<Rightarrow> (query @ '' OFFSET '' @ text, vals, Some stage)
               | SCount \<Rightarrow>
                   (if prev = Some SUnique
                    then (''SELECT '' @ text @ '' FROM ('' @ query @ '') AS tmp'', vals, Some stage)
                    else (''SELECT '' @ text @ '' '' @ query, vals, Some stage))
               | SUnique \<Rightarrow>
                   (if prefix ''SELECT '' query
                    then (''SELECT DISTINCT '' @ drop 7 query, vals, Some stage)
                    else (''SELECT DISTINCT * '' @ query, vals, Some stage))
               | SJoin j \<Rightarrow> (query @ '' '' @ text, vals @ j_values j, Some stage)
               | SCountUnique cols \<Rightarrow>
                   (if cols_or_empty cols \<noteq> []
                    then (''SELECT '' @ text @ '' '' @ query, vals, Some stage)
                    else (''SELECT '' @ text @ '' FROM (SELECT DISTINCT * '' @ query
                            @ '') AS tmp'', vals, Some stage)))))"

fun render_stages ::
  "string \<Rightarrow> stage list \<Rightarrow> string \<times> pyval list \<times> stage option
   \<Rightarrow> error + (string \<times> pyval list \<times> stage option)" where
  "render_stages placeholder [] acc = Inr acc"
| "render_stages placeholder (stage # rest) acc =
     (case render_step placeholder acc stage of
        Inl e \<Rightarrow> Inl e
      | Inr acc' \<Rightarrow> render_stages placeholder rest acc')"

definition render :: "Query \<Rightarrow> string \<Rightarrow> error + (string \<times> pyval list)" where
  "render q placeholder =
     (if tables q = [] then Inl (InvalidQuery ''no table'')
      else
        (case render_stages placeholder (stages q) ([], [], None) of
           Inl e \<Rightarrow> Inl e
         | Inr (query, vals, prev) \<Rightarrow>
             Inr (if \<not> prefix ''SELECT'' query then ''SELECT * '' @ query else query, vals)))"

section \<open>Rendering on a store of list objects\<close>

text \<open>
  The \<open>render\<close> methods create lists and append to them: \<open>pred_list\<close>, \<open>col_list\<close>,
  \<open>cols\<close>, \<open>exprs\<close>, the lists of the comprehensions and \<open>[placeholder] * len(self.rhs)\<close>.
  The lists a Query and its clauses hold (\<open>stages\<close>, \<open>tables\<close>, \<open>preds\<close>, \<open>cols\<close>,
  \<open>aggs\<close>, \<open>group_cols\<close>) are objects of the same kind, which \<open>list.append\<close> changes
  in place. To state what \<open>render\<close> writes, this section runs the same methods on a
  store: a list of cells, one for each list object, the address of a list being the index
  of its cell. Creating a list adds a cell at the end of the store, \<open>list.append\<close>
  updates a cell in place, and an attribute that holds a list holds its address. Strings,
  numbers, tuples, Columns and Predicates are values: no \<open>render\<close> method assigns to an
  attribute, and the creations of lists and the calls of \<open>list.append\<close> are all the
  writes there are in lines 133 to 516.
\<close>

type_synonym addr = nat

text \<open>
  A clause object: the attributes of the clause, with the address of each list it holds.
  \<open>Join.preds\<close> and \<open>CountUnique.cols\<close> are a list or \<open>None\<close>.
\<close>

record JoinObj =
  hj_prev_name :: "string option"
  hj_name :: string
  hj_left_col :: "string option"
  hj_op :: "string option"
  hj_right_col :: "string option"
  hj_how :: string
  hj_alias :: "string option"
  hj_values :: "pyval list"
  hj_preds :: "addr option"

datatype hstage =
    HTable string
  | HProjection addr
  | HFilter addr string "pyval list"
  | HGroup addr
  | HAggregation addr addr
  | HOrder addr
  | HLimit int
  | HOffset int
  | HCount
  | HUnique
  | HCountUnique "addr option"
  | HJoin JoinObj

text \<open>
  A list object, by the kind of its elements: stages, strings, columns, Predicates, the
  triples of an Aggregation, the pairs of an Order.
\<close>

datatype cell =
    Stages "hstage list"
  | Strs "string list"
  | Cols "colspec list"
  | Preds "Predicate list"
  | Aggs "(string \<times> colspec option \<times> string option) list"
  | Ords "(string \<times> string) list"

type_synonym heap = "cell list"

text \<open>
A Query object: the addresses of \<open>self.stages\<close> and \<open>self.tables\<close>.
\<close>

record QueryObj =
  h_stages :: addr
  h_tables :: addr

text \<open>
  A computation takes the store and gives a result or an exception, and the store after
  it. An exception ends the computation with the store as it is then.
\<close>

definition hreturn :: "'a \<Rightarrow> heap \<Rightarrow> (error + 'a) \<times> heap" where
  "hreturn x h = (Inr x, h)"

definition hraise :: "error \<Rightarrow> heap \<Rightarrow> (error + 'a) \<times> heap" where
  "hraise e h = (Inl e, h)"

definition hbind ::
  "(heap \<Rightarrow> (error + 'a) \<times> heap) \<Rightarrow> ('a \<Rightarrow> heap \<Rightarrow> (error + 'b) \<times> heap)
   \<Rightarrow> heap \<Rightarrow> (error + 'b) \<times> heap" where
  "hbind m f h = (case m h of (Inl e, h') \<Rightarrow> (Inl e, h') | (Inr x, h') \<Rightarrow> f x h')"

text \<open>
  Creating a list, reading a list (iterating over it, joining it, taking its truth value)
  and \<open>list.append\<close>. An address that holds no list of the expected kind is a
  \<open>TypeError\<close>.
\<close>

definition cell_at :: "heap \<Rightarrow> addr \<Rightarrow> cell option" where
  "cell_at h a = (if a < length h then Some (h ! a) else None)"

definition new_list :: "cell \<Rightarrow> heap \<Rightarrow> (error + addr) \<times> heap" where
  "new_list c h = (Inr (length h), h @ [c])"

definition read_stages :: "addr \<Rightarrow> heap \<Rightarrow> (error + hstage list) \<times> heap" where
  "read_stages a h = (case cell_at h a of Some (Stages xs) \<Rightarrow> (Inr xs, h) | _ \<Rightarrow> (Inl TypeError, h))"

definition read_strs :: "addr \<Rightarrow> heap \<Rightarrow> (error + string list) \<times> heap" where
  "read_strs a h = (case cell_at h a of Some (Strs xs) \<Rightarrow> (Inr xs, h) | _ \<Rightarrow> (Inl TypeError, h))"

definition read_cols :: "addr \<Rightarrow> heap \<Rightarrow> (error + colspec list) \<times> heap" where
  "read_cols a h = (case cell_at h a of Some (Cols xs) \<Rightarrow> (Inr xs, h) | _ \<Rightarrow> (Inl TypeError, h))"

definition read_preds :: "addr \<Rightarrow> heap \<Rightarrow> (error + Predicate list) \<times> heap" where
  "read_preds a h = (case cell_at h a of Some (Preds xs) \<Rightarrow> (Inr xs, h) | _ \<Rightarrow> (Inl TypeError, h))"

definition read_aggs ::
  "addr \<Rightarrow> heap \<Rightarrow> (error + (string \<times> colspec option \<times> string option) list) \<times> heap" where
  "read_aggs a h = (case cell_at h a of Some (Aggs xs) \<Rightarrow> (Inr xs, h) | _ \<Rightarrow> (Inl TypeError, h))"

definition read_ords :: "addr \<Rightarrow> heap \<Rightarrow> (error + (string \<times> string) list) \<times> heap" where
  "read_ords a h = (case cell_at h a of Some (Ords xs) \<Rightarrow> (Inr xs, h) | _ \<Rightarrow> (Inl TypeError, h))"

definition append_str :: "addr \<Rightarrow> string \<Rightarrow> heap \<Rightarrow> (error + unit) \<times> heap" where
  "append_str a s h =
     (case cell_at h a of
        Some (Strs xs) \<Rightarrow> (Inr (), h[a := Strs (xs @ [s])])
      | _ \<Rightarrow> (Inl TypeError, h))"

definition append_col :: "addr \<Rightarrow> colspec \<Rightarrow> heap \<Rightarrow> (error + unit) \<times> heap" where
  "append_col a c h =
     (case cell_at h a of
        Some (Cols xs) \<Rightarrow> (Inr (), h[a := Cols (xs @ [c])])
      | _ \<Rightarrow> (Inl TypeError, h))"

text \<open>
A \<open>for\<close> loop over the elements of a list, and \<open>sep.join(list)\<close>.
\<close>

fun for_each ::
  "'a list \<Rightarrow> ('a \<Rightarrow> heap \<Rightarrow> (error + unit) \<times> heap) \<Rightarrow> heap \<Rightarrow> (error + unit) \<times> heap" where
  "for_each [] body = hreturn ()"
| "for_each (x # xs) body = hbind (body x) (\<lambda>_. for_each xs body)"

definition join_list :: "string \<Rightarrow> addr \<Rightarrow> heap \<Rightarrow> (error + string) \<times> heap" where
  "join_list sep a = hbind (read_strs a) (\<lambda>xs. hreturn (join sep xs))"

text \<open>
  The \<open>render\<close> methods on the store, named as in the code with the suffix \<open>_h\<close>: the
  statements of the source in their order. \<open>Predicate.render\<close> creates a list in its
  \<open>IN\<close> branch.
\<close>

definition Predicate_render_h :: "Predicate \<Rightarrow> string \<Rightarrow> heap \<Rightarrow> (error + string) \<times> heap" where
  "Predicate_render_h p placeholder =
     (if is_null (p_rhs p) then
        (if p_op p \<in> set [''!='', ''<>'']
         then hreturn (''('' @ quote_lhs (p_lhs p) @ '' IS NOT NULL)'')
         else if p_op p = ''='' then hreturn (''('' @ quote_lhs (p_lhs p) @ '' IS NULL)'')
         else hraise (InvalidComparisonOperator (p_op p)))
      else
        (case p_rhs p of
           PColumn c \<Rightarrow>
             hreturn (''('' @ quote_lhs (p_lhs p) @ '' '' @ p_op p @ '' '' @ Column_str c @ '')'')
         | _ \<Rightarrow>
             (if p_op p = ''IN'' then
                (case py_len (p_rhs p) of
                   Inl e \<Rightarrow> hraise e
                 | Inr n \<Rightarrow>
                     hbind (new_list (Strs (replicate n placeholder))) (\<lambda>l.
                     hbind (join_list '', '' l) (\<lambda>phs.
                       hreturn (''('' @ quote_lhs (p_lhs p) @ '' '' @ p_op p @ '' ('' @ phs
                                @ ''))''))))
              else hreturn (''('' @ quote_lhs (p_lhs p) @ '' '' @ p_op p @ '' '' @ placeholder
                            @ '')''))))"

text \<open>
  The loop of \<open>Filter.render\<close> and of \<open>Join.render\<close>: each Predicate is rendered and its
  text appended to \<open>pred_list\<close>.
\<close>

definition render_preds ::
  "addr \<Rightarrow> Predicate list \<Rightarrow> string \<Rightarrow> heap \<Rightarrow> (error + unit) \<times> heap" where
  "render_preds pred_list preds placeholder =
     for_each preds (\<lambda>pred. hbind (Predicate_render_h pred placeholder) (append_str pred_list))"

definition Filter_render_h :: "addr \<Rightarrow> string \<Rightarrow> string \<Rightarrow> heap \<Rightarrow> (error + string) \<times> heap" where
  "Filter_render_h preds op placeholder =
     hbind (new_list (Strs [])) (\<lambda>pred_list.
     hbind (read_preds preds) (\<lambda>ps.
     hbind (render_preds pred_list ps placeholder) (\<lambda>_.
     hbind (join_list op pred_list) (\<lambda>result.
       if op = Filter_OR then hreturn (''('' @ result @ '')'') else hreturn result))))"

definition Order_render_h :: "addr \<Rightarrow> heap \<Rightarrow> (error + string) \<times> heap" where
  "Order_render_h cols =
     hbind (new_list (Strs [])) (\<lambda>col_list.
     hbind (read_ords cols) (\<lambda>cs.
     hbind (for_each cs (\<lambda>col. append_str col_list (''\"'' @ fst col @ ''\" '' @ snd col)))
       (\<lambda>_.
     join_list '', '' col_list)))"

definition Projection_render_h :: "addr \<Rightarrow> heap \<Rightarrow> (error + string) \<times> heap" where
  "Projection_render_h cols =
     hbind (read_cols cols) (\<lambda>cs.
     hbind (new_list (Strs (map quote cs))) (\<lambda>quoted.
     join_list '', '' quoted))"

definition Group_render_h :: "addr \<Rightarrow> heap \<Rightarrow> (error + string) \<times> heap" where
  "Group_render_h self_cols =
     hbind (new_list (Cols [])) (\<lambda>cols.
     hbind (read_cols self_cols) (\<lambda>cs.
     hbind (for_each cs (\<lambda>col. append_col cols (group_col col))) (\<lambda>_.
     hbind (read_cols cols) (\<lambda>strs.
     hbind (new_list (Strs (map quote strs))) (\<lambda>quoted.
     join_list '', '' quoted)))))"

definition Aggregation_render_h :: "addr \<Rightarrow> addr \<Rightarrow> heap \<Rightarrow> (error + string) \<times> heap" where
  "Aggregation_render_h aggs group_cols =
     hbind (read_cols group_cols) (\<lambda>gcs.
     hbind (new_list (Strs (map quote gcs))) (\<lambda>exprs.
     hbind (read_aggs aggs) (\<lambda>as.
     hbind (for_each as (\<lambda>agg. append_str exprs (agg_expr agg))) (\<lambda>_.
     join_list '', '' exprs))))"

text \<open>
\<open>if self.cols\<close>: \<open>None\<close> and the empty list are falsy.
\<close>

definition list_truthy :: "addr option \<Rightarrow> heap \<Rightarrow> (error + bool) \<times> heap" where
  "list_truthy cols =
     (case cols of
        None \<Rightarrow> hreturn False
      | Some a \<Rightarrow> hbind (read_cols a) (\<lambda>cs. hreturn (cs \<noteq> [])))"

definition CountUnique_render_h :: "addr option \<Rightarrow> heap \<Rightarrow> (error + string) \<times> heap" where
  "CountUnique_render_h cols =
     hbind (list_truthy cols) (\<lambda>b.
       if b then
         hbind (read_cols (the cols)) (\<lambda>cs.
         hbind (new_list (Strs (map (\<lambda>col. ''\"'' @ colspec_str col @ ''\"'') cs))) (\<lambda>quoted.
         hbind (join_list '', '' quoted) (\<lambda>joined.
           hreturn (''COUNT(DISTINCT '' @ joined @ '') AS \"count\"''))))
       else hreturn ''COUNT(*) AS \"count\"'')"

definition Join_render_h :: "JoinObj \<Rightarrow> string \<Rightarrow> heap \<Rightarrow> (error + string) \<times> heap" where
  "Join_render_h j placeholder =
     (let target = ''\"'' @ hj_name j @ ''\"''
                   @ (if truthy (hj_alias j) then '' AS \"'' @ the (hj_alias j) @ ''\"'' else []);
          table = (if truthy (hj_alias j) then ''\"'' @ the (hj_alias j) @ ''\"''
                   else ''\"'' @ hj_name j @ ''\"'')
      in hbind
           (if truthy (hj_left_col j)
            then hreturn (''\"'' @ str_opt (hj_prev_name j) @ ''\".\"'' @ the (hj_left_col j)
                          @ ''\"'' @ '' '' @ str_opt (hj_op j) @ '' '' @ table @ ''.\"''
                          @ str_opt (hj_right_col j) @ ''\"'')
            else hbind (new_list (Strs [])) (\<lambda>pred_list.
                   (case hj_preds j of
                      None \<Rightarrow> hraise TypeError
                    | Some preds \<Rightarrow>
                        hbind (read_preds preds) (\<lambda>ps.
                        hbind (render_preds pred_list ps placeholder) (\<lambda>_.
                        join_list '' AND '' pred_list)))))
           (\<lambda>cond. hreturn (upper (hj_how j) @ '' JOIN '' @ target @ '' ON '' @ cond)))"

fun stage_render_h :: "hstage \<Rightarrow> string \<Rightarrow> heap \<Rightarrow> (error + string) \<times> heap" where
  "stage_render_h (HTable name) placeholder = hreturn name"
| "stage_render_h (HProjection cols) placeholder = Projection_render_h cols"
| "stage_render_h (HFilter preds op vals) placeholder = Filter_render_h preds op placeholder"
| "stage_render_h (HGroup cols) placeholder = Group_render_h cols"
| "stage_render_h (HAggregation aggs group_cols) placeholder = Aggregation_render_h aggs group_cols"
| "stage_render_h (HOrder cols) placeholder = Order_render_h cols"
| "stage_render_h (HLimit num) placeholder = hreturn (str_int num)"
| "stage_render_h (HOffset num) placeholder = hreturn (str_int num)"
| "stage_render_h HCount placeholder = hreturn ''COUNT(*) AS \"count\"''"
| "stage_render_h HUnique placeholder = hreturn ''SELECT DISTINCT *''"
| "stage_render_h (HCountUnique cols) placeholder = CountUnique_render_h cols"
| "stage_render_h (HJoin j) placeholder = Join_render_h j placeholder"


text \<open>
  The loop of \<open>Query.render\<close>: the chain of \<open>isinstance\<close> tests on the stage, then
  \<open>prev = stage\<close>; one pass; the loop.
\<close>

definition place_text ::
  "string \<times> pyval list \<times> hstage option \<Rightarrow> hstage \<Rightarrow> string
   \<Rightarrow> heap \<Rightarrow> (error + (string \<times> pyval list \<times> hstage option)) \<times> heap" where
  "place_text acc stage text =
     (case acc of (query, vals, prev) \<Rightarrow>
        (case stage of
           HTable _ \<Rightarrow> hreturn (''FROM \"'' @ text @ ''\"'', vals, Some stage)
         | HProjection _ \<Rightarrow> hreturn (''SELECT '' @ text @ '' '' @ query, vals, Some stage)
         | HFilter _ _ values \<Rightarrow>
             hreturn
               (query @ '' ''
                  @ (case prev of
                       Some (HAggregation _ _) \<Rightarrow> ''HAVING''
                     | Some (HFilter _ _ _) \<Rightarrow> ''AND''
                     | _ \<Rightarrow> ''WHERE'')
                  @ '' '' @ text,
                vals @ values, Some stage)
         | HGroup _ \<Rightarrow> hreturn (query @ '' GROUP BY '' @ text, vals, Some stage)
         | HAggregation _ _ \<Rightarrow> hreturn (''SELECT '' @ text @ '' '' @ query, vals, Some stage)
         | HOrder _ \<Rightarrow> hreturn (query @ '' ORDER BY '' @ text, vals, Some stage)
         | HLimit _ \<Rightarrow> hreturn (query @ '' LIMIT '' @ text, vals, Some stage)
         | HOffset _ \<Rightarrow> hreturn (query @ '' OFFSET '' @ text, vals, Some stage)
         | HCount \<Rightarrow>
             hreturn
               (if prev = Some HUnique
                then (''SELECT '' @ text @ '' FROM ('' @ query @ '') AS tmp'', vals, Some stage)
                else (''SELECT '' @ text @ '' '' @ query, vals, Some stage))
         | HUnique \<Rightarrow>
             hreturn
               (if prefix ''SELECT '' query
                then (''SELECT DISTINCT '' @ drop 7 query, vals, Some stage)
                else (''SELECT DISTINCT * '' @ query, vals, Some stage))
         | HJoin j \<Rightarrow> hreturn (query @ '' '' @ text, vals @ hj_values j, Some stage)
         | HCountUnique cols \<Rightarrow>
             hbind (list_truthy cols) (\<lambda>b.
               hreturn
                 (if b then (''SELECT '' @ text @ '' '' @ query, vals, Some stage)
                  else (''SELECT '' @ text @ '' FROM (SELECT DISTINCT * '' @ query
                          @ '') AS tmp'', vals, Some stage)))))"

definition render_step_h ::
  "string \<Rightarrow> string \<times> pyval list \<times> hstage option \<Rightarrow> hstage
   \<Rightarrow> heap \<Rightarrow> (error + (string \<times> pyval list \<times> hstage option)) \<times> heap" where
  "render_step_h placeholder acc stage =
     hbind (stage_render_h stage placeholder) (place_text acc stage)"

fun render_stages_h ::
  "string \<Rightarrow> hstage list \<Rightarrow> string \<times> pyval list \<times> hstage option
   \<Rightarrow> heap \<Rightarrow> (error + (string \<times> pyval list \<times> hstage option)) \<times> heap" where
  "render_stages_h placeholder [] acc = hreturn acc"
| "render_stages_h placeholder (stage # rest) acc =
     hbind (render_step_h placeholder acc stage) (render_stages_h placeholder rest)"

text \<open>
\<open>Query.render\<close> on the store.
\<close>

definition Query_render ::
  "QueryObj \<Rightarrow> string \<Rightarrow> heap \<Rightarrow> (error + (string \<times> pyval list)) \<times> heap" where
  "Query_render self placeholder =
     hbind (read_strs (h_tables self)) (\<lambda>tables.
       if tables = [] then hraise (InvalidQuery ''no table'')
       else
         hbind (read_stages (h_stages self)) (\<lambda>sts.
         hbind (render_stages_h placeholder sts ([], [], None)) (\<lambda>(query, vals, prev).
           hreturn (if \<not> prefix ''SELECT'' query then ''SELECT * '' @ query else query, vals))))"

text \<open>
  The Query that the store holds at a Query object: each address is replaced by the list
  in its cell. There is none when an address does not hold a list of the expected kind.
\<close>

definition Join_of :: "JoinObj \<Rightarrow> Predicate list option \<Rightarrow> Join" where
  "Join_of j preds =
     \<lparr>j_prev_name = hj_prev_name j, j_name = hj_name j, j_left_col = hj_left_col j,
      j_op = hj_op j, j_right_col = hj_right_col j, j_how = hj_how j, j_alias = hj_alias j,
      j_values = hj_values j, j_preds = preds\<rparr>"

fun stage_of :: "heap \<Rightarrow> hstage \<Rightarrow> stage option" where
  "stage_of h (HTable name) = Some (STable name)"
| "stage_of h (HProjection cols) =
     (case cell_at h cols of Some (Cols cs) \<Rightarrow> Some (SProjection cs) | _ \<Rightarrow> None)"
| "stage_of h (HFilter preds op vals) =
     (case cell_at h preds of
        Some (Preds ps) \<Rightarrow> Some (SFilter \<lparr>f_preds = ps, f_op = op, f_values = vals\<rparr>)
      | _ \<Rightarrow> None)"
| "stage_of h (HGroup cols) =
     (case cell_at h cols of Some (Cols cs) \<Rightarrow> Some (SGroup cs) | _ \<Rightarrow> None)"
| "stage_of h (HAggregation aggs group_cols) =
     (case cell_at h aggs of
        Some (Aggs as) \<Rightarrow>
          (case cell_at h group_cols of
             Some (Cols gcs) \<Rightarrow> Some (SAggregation \<lparr>a_aggs = as, a_group_cols = gcs\<rparr>)
           | _ \<Rightarrow> None)
      | _ \<Rightarrow> None)"
| "stage_of h (HOrder cols) =
     (case cell_at h cols of Some (Ords cs) \<Rightarrow> Some (SOrder cs) | _ \<Rightarrow> None)"
| "stage_of h (HLimit num) = Some (SLimit num)"
| "stage_of h (HOffset num) = Some (SOffset num)"
| "stage_of h HCount = Some SCount"
| "stage_of h HUnique = Some SUnique"
| "stage_of h (HCountUnique None) = Some (SCountUnique None)"
| "stage_of h (HCountUnique (Some cols)) =
     (case cell_at h cols of Some (Cols cs) \<Rightarrow> Some (SCountUnique (Some cs)) | _ \<Rightarrow> None)"
| "stage_of h (HJoin j) =
     (case hj_preds j of
        None \<Rightarrow> Some (SJoin (Join_of j None))
      | Some preds \<Rightarrow>
          (case cell_at h preds of
             Some (Preds ps) \<Rightarrow> Some (SJoin (Join_of j (Some ps)))
           | _ \<Rightarrow> None))"

fun stages_of :: "heap \<Rightarrow> hstage list \<Rightarrow> stage list option" where
  "stages_of h [] = Some []"
| "stages_of h (s # ss) =
     (case stage_of h s of
        None \<Rightarrow> None
      | Some s' \<Rightarrow> (case stages_of h ss of None \<Rightarrow> None | Some ss' \<Rightarrow> Some (s' # ss')))"

definition Query_of :: "heap \<Rightarrow> QueryObj \<Rightarrow> Query option" where
  "Query_of h self =
     (case cell_at h (h_stages self) of
        Some (Stages sts) \<Rightarrow>
          (case cell_at h (h_tables self) of
             Some (Strs ts) \<Rightarrow>
               (case stages_of h sts of
                  Some ss \<Rightarrow> Some \<lparr>stages = ss, tables = ts\<rparr>
                | None \<Rightarrow> None)
           | _ \<Rightarrow> None)
      | _ \<Rightarrow> None)"

text \<open>
  \<open>keeps h h'\<close>: the store \<open>h'\<close> has every list object of \<open>h\<close>, at its address and
  with its elements; it may have more list objects than \<open>h\<close>.
\<close>

definition keeps :: "heap \<Rightarrow> heap \<Rightarrow> bool" where
  "keeps h h' = (take (length h) h' = h)"

text \<open>
  The remaining definitions serve the proofs only. \<open>yields m h r\<close>: run on \<open>h\<close>, the
  computation \<open>m\<close> gives \<open>r\<close> and keeps the list objects of \<open>h\<close>.
\<close>

definition yields :: "(heap \<Rightarrow> (error + 'a) \<times> heap) \<Rightarrow> heap \<Rightarrow> error + 'a \<Rightarrow> bool" where
  "yields m h r = (\<exists>h'. m h = (r, h') \<and> keeps h h')"

fun unit_of :: "error + 'a \<Rightarrow> error + unit" where
  "unit_of (Inl e) = Inl e"
| "unit_of (Inr _) = Inr ()"

text \<open>
  The local \<open>prev\<close> of the loop, on the store and in \<open>render_step\<close>, and the result of
  one pass and of the loop with and without it.
\<close>

fun prev_of :: "heap \<Rightarrow> hstage option \<Rightarrow> stage option option" where
  "prev_of h None = Some None"
| "prev_of h (Some s) = (case stage_of h s of None \<Rightarrow> None | Some s' \<Rightarrow> Some (Some s'))"

fun with_prev ::
  "hstage \<Rightarrow> error + (string \<times> pyval list \<times> stage option)
   \<Rightarrow> error + (string \<times> pyval list \<times> hstage option)" where
  "with_prev s (Inl e) = Inl e"
| "with_prev s (Inr (q, v, _)) = Inr (q, v, Some s)"

fun drop_prev :: "error + (string \<times> pyval list \<times> 'a) \<Rightarrow> error + (string \<times> pyval list)" where
  "drop_prev (Inl e) = Inl e"
| "drop_prev (Inr (q, v, _)) = Inr (q, v)"

section \<open>Placeholders and bound values\<close>

text \<open>
  The notions the statement about placeholders needs; none of them is code of
  \<open>query.py\<close>. A template is a text with holes: a list of literal pieces and holes that
  carry a label. \<open>fill f t\<close> is the text with \<open>f a\<close> in the hole labelled \<open>a\<close>, and
  \<open>holes t\<close> lists the labels from left to right.
\<close>

datatype 'a piece = Lit string | Hole 'a

fun fill :: "('a \<Rightarrow> string) \<Rightarrow> 'a piece list \<Rightarrow> string" where
  "fill f [] = []"
| "fill f (Lit s # t) = s @ fill f t"
| "fill f (Hole a # t) = f a @ fill f t"

fun holes :: "'a piece list \<Rightarrow> 'a list" where
  "holes [] = []"
| "holes (Lit s # t) = holes t"
| "holes (Hole a # t) = a # holes t"

text \<open>
  \<open>text.count(ph)\<close>: the occurrences of a token in a text, counted from the left without
  overlap.
\<close>

fun occurrences :: "string \<Rightarrow> string \<Rightarrow> nat" where
  "occurrences ph [] = (if ph = [] then 1 else 0)"
| "occurrences ph (x # xs) =
     (if ph = [] then length (x # xs) + 1
      else if prefix ph (x # xs) then 1 + occurrences ph (drop (length ph) (x # xs))
      else occurrences ph xs)"

text \<open>The text a Predicate renders to, when it renders.\<close>

definition pred_text :: "Predicate \<Rightarrow> string \<Rightarrow> string" where
  "pred_text p ph = (case Predicate_render p ph of Inl _ \<Rightarrow> [] | Inr t \<Rightarrow> t)"

text \<open>
  A Predicate as its constructor leaves it: \<open>values\<close> is what lines 122 to 131 compute
  from \<open>rhs\<close>. It is well-formed when, besides, the operator is \<open>IN\<close> exactly for a
  right-hand side that is a list or tuple (a null or a \<open>Column\<close> on the right may have
  any operator: no placeholder is rendered for it).
\<close>

definition rhs_values :: "pyval \<Rightarrow> pyval list" where
  "rhs_values r =
     (if is_null r then []
      else case r of PSeq xs \<Rightarrow> xs | PColumn _ \<Rightarrow> [] | _ \<Rightarrow> [r])"

definition pred_ok :: "Predicate \<Rightarrow> bool" where
  "pred_ok p =
     (p_values p = rhs_values (p_rhs p)
      \<and> (case p_rhs p of
            PSeq xs \<Rightarrow> p_op p = ''IN''
          | PColumn c \<Rightarrow> True
          | r \<Rightarrow> is_null r \<or> p_op p \<noteq> ''IN''))"

text \<open>
  The values a stage contributes to the output of \<open>render\<close>, and the Predicates whose
  text it renders. A Join with a left column renders its column condition and none of
  its Predicates.
\<close>

fun stage_values :: "stage \<Rightarrow> pyval list" where
  "stage_values (SFilter f) = f_values f"
| "stage_values (SJoin j) = j_values j"
| "stage_values _ = []"

fun stage_preds :: "stage \<Rightarrow> Predicate list" where
  "stage_preds (SFilter f) = f_preds f"
| "stage_preds (SJoin j) = (if truthy (j_left_col j) then [] else preds_or_empty (j_preds j))"
| "stage_preds _ = []"

definition query_preds :: "Query \<Rightarrow> Predicate list" where
  "query_preds q = concat (map stage_preds (stages q))"

text \<open>
  A Filter or Join as its constructor leaves it holds the values of its Predicates, in
  order. A stage is well-formed when, besides, its Predicates are well-formed and a Join
  follows its docstring, using either the column triple or the Predicates: one with a
  left column carries no value.
\<close>

fun stage_ok :: "stage \<Rightarrow> bool" where
  "stage_ok (SFilter f) =
     (f_values f = concat (map p_values (f_preds f)) \<and> list_all pred_ok (f_preds f))"
| "stage_ok (SJoin j) =
     (j_values j = concat (map p_values (preds_or_empty (j_preds j)))
      \<and> list_all pred_ok (preds_or_empty (j_preds j))
      \<and> (truthy (j_left_col j) \<longrightarrow> j_values j = []))"
| "stage_ok _ = True"

text \<open>No Table stage comes after a Filter or Join stage that renders a Predicate.\<close>

fun is_Table :: "stage \<Rightarrow> bool" where
  "is_Table (STable _) = True"
| "is_Table _ = False"

fun tables_first :: "stage list \<Rightarrow> bool" where
  "tables_first [] = True"
| "tables_first (s # ss) = ((stage_preds s \<noteq> [] \<longrightarrow> \<not> list_ex is_Table ss) \<and> tables_first ss)"

section \<open>The template of the rendered text\<close>

text \<open>
  The rendered text as a template over the Predicates: what \<open>stage.render\<close> returns,
  what one pass of the loop of \<open>Query.render\<close> makes of the text so far, the loop, and the
  \<open>SELECT *\<close> put in front at the end. These definitions serve the proofs only.
\<close>

text \<open>The template of \<open>sep.join(...)\<close>, with one hole for each element.\<close>

fun join_t :: "string \<Rightarrow> 'a list \<Rightarrow> 'a piece list" where
  "join_t sep [] = []"
| "join_t sep [a] = [Hole a]"
| "join_t sep (a # b # r) = Hole a # Lit sep # join_t sep (b # r)"

text \<open>
  The literal text in front of the first hole of a template, and the template without
  the first \<open>n\<close> characters of it.
\<close>

fun lead :: "'a piece list \<Rightarrow> string" where
  "lead [] = []"
| "lead (Lit s # t) = s @ lead t"
| "lead (Hole a # t) = []"

fun drop_lead :: "nat \<Rightarrow> 'a piece list \<Rightarrow> 'a piece list" where
  "drop_lead n [] = []"
| "drop_lead n (Lit s # t) = (if n \<le> length s then Lit (drop n s) # t else drop_lead (n - length s) t)"
| "drop_lead n (Hole a # t) = Hole a # t"

text \<open>The template of a well-formed Predicate, with one hole for each of its values.\<close>

definition pred_template :: "Predicate \<Rightarrow> pyval piece list" where
  "pred_template p =
     (if is_null (p_rhs p) then [Lit (pred_text p [])]
      else case p_rhs p of
        PColumn c \<Rightarrow> [Lit (pred_text p [])]
      | PSeq xs \<Rightarrow>
          [Lit (''('' @ quote_lhs (p_lhs p) @ '' '' @ p_op p @ '' ('')] @ join_t '', '' xs
          @ [Lit ''))'']
      | v \<Rightarrow> [Lit (''('' @ quote_lhs (p_lhs p) @ '' '' @ p_op p @ '' ''), Hole v, Lit '')''])"

definition stage_text :: "stage \<Rightarrow> string" where
  "stage_text s = (case stage_render s [] of Inl _ \<Rightarrow> [] | Inr t \<Rightarrow> t)"

definition stage_template :: "stage \<Rightarrow> Predicate piece list" where
  "stage_template s =
     (case s of
        SFilter f \<Rightarrow>
          (if f_op f = Filter_OR then [Lit ''(''] @ join_t (f_op f) (f_preds f) @ [Lit '')'']
           else join_t (f_op f) (f_preds f))
      | SJoin j \<Rightarrow>
          (if truthy (j_left_col j) then [Lit (stage_text s)]
           else [Lit (upper (j_how j) @ '' JOIN '' @ ''\"'' @ j_name j @ ''\"''
                      @ (if truthy (j_alias j) then '' AS \"'' @ the (j_alias j) @ ''\"'' else [])
                      @ '' ON '')]
                @ join_t '' AND '' (preds_or_empty (j_preds j)))
      | _ \<Rightarrow> [Lit (stage_text s)])"

text \<open>A Predicate that renders, for every placeholder, to a text in parentheses.\<close>

definition renders :: "Predicate \<Rightarrow> bool" where
  "renders p = (\<forall>ph. \<exists>t. Predicate_render p ph = Inr (CHR ''('' # t))"

definition step_template ::
  "stage option \<Rightarrow> Predicate piece list \<Rightarrow> stage \<Rightarrow> Predicate piece list" where
  "step_template prev T s =
     (case s of
        STable name \<Rightarrow> [Lit (''FROM \"'' @ name @ ''\"'')]
      | SProjection _ \<Rightarrow> Lit ''SELECT '' # stage_template s @ Lit '' '' # T
      | SFilter f \<Rightarrow>
          T @ [Lit ('' '' @ (case prev of
                              Some (SAggregation _) \<Rightarrow> ''HAVING''
                            | Some (SFilter _) \<Rightarrow> ''AND''
                            | _ \<Rightarrow> ''WHERE'') @ '' '')] @ stage_template s
      | SGroup _ \<Rightarrow> T @ [Lit '' GROUP BY ''] @ stage_template s
      | SAggregation _ \<Rightarrow> Lit ''SELECT '' # stage_template s @ Lit '' '' # T
      | SOrder _ \<Rightarrow> T @ [Lit '' ORDER BY ''] @ stage_template s
      | SLimit _ \<Rightarrow> T @ [Lit '' LIMIT ''] @ stage_template s
      | SOffset _ \<Rightarrow> T @ [Lit '' OFFSET ''] @ stage_template s
      | SCount \<Rightarrow>
          (if prev = Some SUnique
           then Lit ''SELECT '' # stage_template s @ Lit '' FROM ('' # T @ [Lit '') AS tmp'']
           else Lit ''SELECT '' # stage_template s @ Lit '' '' # T)
      | SUnique \<Rightarrow>
          (if prefix ''SELECT '' (lead T) then Lit ''SELECT DISTINCT '' # drop_lead 7 T
           else Lit ''SELECT DISTINCT * '' # T)
      | SJoin j \<Rightarrow> T @ [Lit '' ''] @ stage_template s
      | SCountUnique cols \<Rightarrow>
          (if cols_or_empty cols \<noteq> []
           then Lit ''SELECT '' # stage_template s @ Lit '' '' # T
           else Lit ''SELECT '' # stage_template s @ Lit '' FROM (SELECT DISTINCT * '' # T
                @ [Lit '') AS tmp'']))"

fun stages_template ::
  "stage list \<Rightarrow> stage option \<Rightarrow> Predicate piece list \<Rightarrow> Predicate piece list" where
  "stages_template [] prev T = T"
| "stages_template (s # ss) prev T = stages_template ss (Some s) (step_template prev T s)"

fun last_prev :: "stage list \<Rightarrow> stage option \<Rightarrow> stage option" where
  "last_prev [] prev = prev"
| "last_prev (s # ss) prev = last_prev ss (Some s)"

definition final_template :: "Predicate piece list \<Rightarrow> Predicate piece list" where
  "final_template T = (if \<not> prefix ''SELECT'' (lead T) then Lit ''SELECT * '' # T else T)"

text \<open>Putting a template into each hole of a template.\<close>

fun expand :: "('a \<Rightarrow> 'b piece list) \<Rightarrow> 'a piece list \<Rightarrow> 'b piece list" where
  "expand g [] = []"
| "expand g (Lit s # t) = Lit s # expand g t"
| "expand g (Hole a # t) = g a @ expand g t"

section \<open>Evaluation\<close>

text \<open>The defining equations, grouped for evaluating the model on concrete inputs.\<close>

lemmas validator_defs = check_name_def check_path_def spec_validators_def spec_validate_name_def
  spec_validate_path_def ident_char_def validate_column_name_def validate_column_def

lemmas case_defs = suffix_to_prefix lower_def upper_def lower_char_def upper_char_def
  upper_letters_def lower_letters_def

lemmas init_defs = Predicate_init_def COMP_OPS_def list_property_def ebind_def is_null_def
  Projection_init_def Group_init_def Table_init_def Aggregation_init_def check_agg_def
  AGG_FUNCS_def CountUnique_init_def Join_init_def JOIN_TYPES_def Query_init_def Filter_init_def

lemmas append_defs = Query_append_def last_stage_def push_def pop_def ebind_def
  CountUnique_init_def Join_eq_def

lemmas render_defs = render_def render_step_def Predicate_render_def Filter_render_def
  Join_render_def Projection_render_def Group_render_def Aggregation_render_def agg_expr_def
  CountUnique_render_def Order_render_def quote_str_def Column_str_def CoalescedColumn_str_def
  is_null_def ebind_def Filter_OR_def Filter_AND_def

lemmas store_defs = Query_render_def render_step_h_def place_text_def Predicate_render_h_def
  Filter_render_h_def render_preds_def Order_render_h_def Projection_render_h_def
  Group_render_h_def Aggregation_render_h_def CountUnique_render_h_def Join_render_h_def
  list_truthy_def join_list_def hbind_def hreturn_def hraise_def new_list_def cell_at_def
  read_stages_def read_strs_def read_cols_def read_preds_def read_aggs_def read_ords_def
  append_str_def append_col_def

section \<open>Aggregation after Projection\<close>

text \<open>
  C2, as the claim states it, fails: a Projection that a later \<open>CountUnique\<close> absorbed was
  appended before the Aggregation, yet the Aggregation is accepted. Here
  \<open>Query()\<close> gets \<open>Table("t")\<close>, \<open>Projection(["a"])\<close>, \<open>CountUnique()\<close> and
  \<open>Aggregation([("COUNT", "*", "n")])\<close>, and every append succeeds.
\<close>

theorem absorbed_projection_allows_aggregation:
  "Aggregation_init spec_validators [Agg3 ''COUNT'' (Some (CName ''*'')) (Some ''n'')]
     = Inr \<lparr>a_aggs = [(''COUNT'', Some (CName ''*''), Some ''n'')], a_group_cols = []\<rparr>
   \<and> Projection_init spec_validators [CName ''a''] = Inr [CName ''a'']
   \<and> Query_extend spec_validators \<lparr>stages = [], tables = []\<rparr>
       [STable ''t'', SProjection [CName ''a''], SCountUnique None,
        SAggregation \<lparr>a_aggs = [(''COUNT'', Some (CName ''*''), Some ''n'')], a_group_cols = []\<rparr>]
     = Inr \<lparr>stages = [STable ''t'', SCountUnique (Some [CName ''a'']),
               SAggregation \<lparr>a_aggs = [(''COUNT'', Some (CName ''*''), Some ''n'')],
                             a_group_cols = []\<rparr>],
            tables = [''t'']\<rparr>"
  by (simp add: init_defs validator_defs case_defs append_defs)

text \<open>
  C2, amended: appending an Aggregation fails with \<open>InvalidQuery\<close> whenever a Projection is
  in the stage sequence of the Query at that moment, whatever stages come before it
  (\<open>pre\<close>) and however many lie between it and the Aggregation (\<open>post\<close>).
\<close>

theorem aggregation_after_projection_fails:
  "stages q = pre @ SProjection cols # post \<Longrightarrow>
   Query_append V q (SAggregation a)
     = Inl (InvalidQuery ''cannot have Aggregation after Projection'')"
  by (simp add: Query_append_def list_ex_iff)

theorem aggregation_after_projection_fails_witness:
  "stages \<lparr>stages = [STable ''events'', SProjection [CName ''type''], SGroup [CName ''type''],
                      SLimit 5],
           tables = [''events'']\<rparr>
     = [STable ''events''] @ SProjection [CName ''type''] # [SGroup [CName ''type''], SLimit 5]
   \<and> Query_append spec_validators
        \<lparr>stages = [STable ''events'', SProjection [CName ''type''], SGroup [CName ''type''],
                   SLimit 5],
         tables = [''events'']\<rparr>
        (SAggregation \<lparr>a_aggs = [(''COUNT'', Some (CName ''*''), Some ''n'')], a_group_cols = []\<rparr>)
     = Inl (InvalidQuery ''cannot have Aggregation after Projection'')"
  using aggregation_after_projection_fails
    [of "\<lparr>stages = [STable ''events'', SProjection [CName ''type''], SGroup [CName ''type''],
                     SLimit 5],
          tables = [''events'']\<rparr>"
        "[STable ''events'']" "[CName ''type'']" "[SGroup [CName ''type''], SLimit 5]"
        spec_validators
        "\<lparr>a_aggs = [(''COUNT'', Some (CName ''*''), Some ''n'')], a_group_cols = []\<rparr>"]
  by simp

section \<open>The events query\<close>

text \<open>
  C3, as the claim states it, fails: \<open>Query("events")\<close> followed by the appends of
  \<open>Projection(["type"])\<close>, \<open>Group(["type"])\<close> and
  \<open>Aggregation([("COUNT", "*", "n")])\<close> raises \<open>InvalidQuery\<close> at the Aggregation, so
  there is no Query to render.
\<close>

theorem events_query_append_raises:
  "ebind (Query_init spec_validators (ArgName ''events'')) (\<lambda>q.
     Query_extend spec_validators q
       [SProjection [CName ''type''], SGroup [CName ''type''],
        SAggregation \<lparr>a_aggs = [(''COUNT'', Some (CName ''*''), Some ''n'')], a_group_cols = []\<rparr>])
   = Inl (InvalidQuery ''cannot have Aggregation after Projection'')"
  by (simp add: init_defs validator_defs case_defs append_defs)

text \<open>
  C3, amended: for validators that accept the table name \<open>events\<close>, the appends of
  Projection, Group and Aggregation in that order raise \<open>InvalidQuery\<close>; the same Query
  without the Projection renders, with placeholder \<open>?\<close>, to a text whose select list is
  exactly \<open>"type", COUNT(*) AS "n"\<close>, followed by \<open>GROUP BY "type"\<close>, and binds no value.
\<close>

theorem events_query_rejected:
  "validate_name V ''events'' \<Longrightarrow>
   ebind (Query_init V (ArgName ''events'')) (\<lambda>q.
     Query_extend V q
       [SProjection [CName ''type''], SGroup [CName ''type''],
        SAggregation \<lparr>a_aggs = [(''COUNT'', Some (CName ''*''), Some ''n'')], a_group_cols = []\<rparr>])
     = Inl (InvalidQuery ''cannot have Aggregation after Projection'')
   \<and> ebind (Query_init V (ArgName ''events'')) (\<lambda>q.
       ebind (Query_extend V q
                [SGroup [CName ''type''],
                 SAggregation \<lparr>a_aggs = [(''COUNT'', Some (CName ''*''), Some ''n'')],
                               a_group_cols = []\<rparr>])
         (\<lambda>q'. render q' ''?''))
     = Inr (''SELECT \"type\", COUNT(*) AS \"n\" FROM \"events\" GROUP BY \"type\"'', [])"
  by (simp add: init_defs check_name_def append_defs render_defs case_defs)

theorem events_query_rejected_witness:
  "validate_name spec_validators ''events''
   \<and> ebind (Query_init spec_validators (ArgName ''events'')) (\<lambda>q.
       ebind (Query_extend spec_validators q
                [SGroup [CName ''type''],
                 SAggregation \<lparr>a_aggs = [(''COUNT'', Some (CName ''*''), Some ''n'')],
                               a_group_cols = []\<rparr>])
         (\<lambda>q'. render q' ''?''))
     = Inr (''SELECT \"type\", COUNT(*) AS \"n\" FROM \"events\" GROUP BY \"type\"'', [])"
proof -
  have ok: "validate_name spec_validators ''events''"
    by (simp add: validator_defs upper_letters_def lower_letters_def)
  show ?thesis
    using ok events_query_rejected [OF ok] by simp
qed

section \<open>Folding Projection, Unique and Count\<close>

text \<open>
  C6, as the claim states it, fails: after \<open>Unique\<close>, \<open>Projection(["a", "b"])\<close> and
  \<open>Count\<close> in that order the last stage in front of the Count is the Projection, not
  the Unique, so nothing is folded. All three stages stay, and the text of the Projection
  shows up in the rendered SQL.
\<close>

theorem unique_projection_count_not_folded:
  "Query_extend spec_validators \<lparr>stages = [], tables = []\<rparr>
     [STable ''t'', SUnique, SProjection [CName ''a'', CName ''b''], SCount]
   = Inr \<lparr>stages = [STable ''t'', SUnique, SProjection [CName ''a'', CName ''b''], SCount],
          tables = [''t'']\<rparr>
   \<and> render \<lparr>stages = [STable ''t'', SUnique, SProjection [CName ''a'', CName ''b''], SCount],
              tables = [''t'']\<rparr> ''?''
     = Inr (''SELECT COUNT(*) AS \"count\" SELECT \"a\", \"b\" SELECT DISTINCT * FROM \"t\"'', [])"
  by (simp add: append_defs render_defs)

text \<open>
  C6, amended: appending a Projection, then \<open>Unique\<close>, then \<open>Count\<close> to any Query
  leaves exactly one stage in place of the three, a \<open>CountUnique\<close> over the columns of
  the Projection; for the columns \<open>a\<close> and \<open>b\<close> it renders, for any placeholder, as
  \<open>COUNT(DISTINCT "a", "b") AS "count"\<close>. No Projection stage is left to be rendered.
\<close>

theorem projection_unique_count_folds:
  "Projection_init V cols = Inr pc \<Longrightarrow>
   Query_extend V q [SProjection pc, SUnique, SCount] = Inr (push q (SCountUnique (Some pc)))
   \<and> stage_render (SCountUnique (Some [CName ''a'', CName ''b''])) ph
       = Inr ''COUNT(DISTINCT \"a\", \"b\") AS \"count\"''"
  by (auto simp: Projection_init_def append_defs butlast_append CountUnique_render_def
      split: sum.splits)

theorem projection_unique_count_folds_witness:
  "Projection_init spec_validators [CName ''a'', CName ''b''] = Inr [CName ''a'', CName ''b'']
   \<and> Query_extend spec_validators \<lparr>stages = [STable ''t''], tables = [''t'']\<rparr>
        [SProjection [CName ''a'', CName ''b''], SUnique, SCount]
      = Inr \<lparr>stages = [STable ''t'', SCountUnique (Some [CName ''a'', CName ''b''])],
             tables = [''t'']\<rparr>
   \<and> render \<lparr>stages = [STable ''t'', SCountUnique (Some [CName ''a'', CName ''b''])],
              tables = [''t'']\<rparr> ''?''
      = Inr (''SELECT COUNT(DISTINCT \"a\", \"b\") AS \"count\" FROM \"t\"'', [])"
proof -
  have ok: "Projection_init spec_validators [CName ''a'', CName ''b'']
            = Inr [CName ''a'', CName ''b'']"
    by (simp add: init_defs validator_defs case_defs)
  have r: "render \<lparr>stages = [STable ''t'', SCountUnique (Some [CName ''a'', CName ''b''])],
                   tables = [''t'']\<rparr> ''?''
           = Inr (''SELECT COUNT(DISTINCT \"a\", \"b\") AS \"count\" FROM \"t\"'', [])"
    by (simp add: render_defs)
  show ?thesis
    using ok r
      projection_unique_count_folds
        [OF ok, of "\<lparr>stages = [STable ''t''], tables = [''t'']\<rparr>" "''?''"]
    by (simp add: push_def)
qed

section \<open>Consecutive identical Joins\<close>

text \<open>
  C7, as the claim states it, fails: \<open>Join("u", "a", "=", "b")\<close> appended twice after
  \<open>Table("t")\<close>. The first append fills in \<open>prev_name = "t"\<close>; the second Join still has
  \<open>prev_name = None\<close> when \<open>__eq__\<close> compares the two, so it is kept, gets
  \<open>prev_name = "u"\<close>, and the rendered SQL has two JOIN clauses.
\<close>

theorem implicit_lhs_join_not_deduplicated:
  "Join_init spec_validators ''u'' (Some ''a'') (Some ''='') (Some ''b'') None ''INNER'' None None
     = Inr \<lparr>j_prev_name = None, j_name = ''u'', j_left_col = Some ''a'', j_op = Some ''='',
            j_right_col = Some ''b'', j_how = ''INNER'', j_alias = None, j_values = [],
            j_preds = None\<rparr>
   \<and> Query_extend spec_validators \<lparr>stages = [], tables = []\<rparr>
       [STable ''t'',
        SJoin \<lparr>j_prev_name = None, j_name = ''u'', j_left_col = Some ''a'', j_op = Some ''='',
               j_right_col = Some ''b'', j_how = ''INNER'', j_alias = None, j_values = [],
               j_preds = None\<rparr>,
        SJoin \<lparr>j_prev_name = None, j_name = ''u'', j_left_col = Some ''a'', j_op = Some ''='',
               j_right_col = Some ''b'', j_how = ''INNER'', j_alias = None, j_values = [],
               j_preds = None\<rparr>]
     = Inr \<lparr>stages =
              [STable ''t'',
               SJoin \<lparr>j_prev_name = Some ''t'', j_name = ''u'', j_left_col = Some ''a'',
                      j_op = Some ''='', j_right_col = Some ''b'', j_how = ''INNER'',
                      j_alias = None, j_values = [], j_preds = None\<rparr>,
               SJoin \<lparr>j_prev_name = Some ''u'', j_name = ''u'', j_left_col = Some ''a'',
                      j_op = Some ''='', j_right_col = Some ''b'', j_how = ''INNER'',
                      j_alias = None, j_values = [], j_preds = None\<rparr>],
            tables = [''t'']\<rparr>
   \<and> render
        \<lparr>stages =
           [STable ''t'',
            SJoin \<lparr>j_prev_name = Some ''t'', j_name = ''u'', j_left_col = Some ''a'',
                   j_op = Some ''='', j_right_col = Some ''b'', j_how = ''INNER'',
                   j_alias = None, j_values = [], j_preds = None\<rparr>,
            SJoin \<lparr>j_prev_name = Some ''u'', j_name = ''u'', j_left_col = Some ''a'',
                   j_op = Some ''='', j_right_col = Some ''b'', j_how = ''INNER'',
                   j_alias = None, j_values = [], j_preds = None\<rparr>],
         tables = [''t'']\<rparr> ''?''
     = Inr (''SELECT * FROM \"t\" INNER JOIN \"u\" ON \"t\".\"a\" = \"u\".\"b\" INNER JOIN \"u\" ON \"u\".\"a\" = \"u\".\"b\"'',
            [])"
  by (simp add: init_defs validator_defs case_defs append_defs render_defs)

text \<open>
  C7, amended: when the Join is constructed with an explicit left-hand table name
  (\<open>lhs\<close>, not empty) and its append to a Query succeeds, the Query ends in that Join,
  and appending a second Join constructed with the same arguments gives the Query back
  unchanged: the duplicate is dropped, so the stage sequence and with it the rendered
  SQL stay as they were.
\<close>

theorem explicit_lhs_join_deduplicated:
  assumes "Join_init V name left_col op right_col preds how alias lhs_name = Inr j"
    and "truthy lhs_name"
    and "Query_append V q (SJoin j) = Inr q1"
  shows "Query_append V q1 (SJoin j) = Inr q1
         \<and> (\<exists>l. last_stage q1 = Some (SJoin l) \<and> Join_eq l j)"
proof -
  have "j_prev_name j = lhs_name"
    using assms(1) by (auto simp: Join_init_def ebind_def split: sum.splits if_splits)
  then have "truthy (j_prev_name j)"
    using assms(2) by simp
  then show ?thesis
    using assms(3)
    by (auto simp: append_defs split: option.splits stage.splits if_splits)
qed

theorem explicit_lhs_join_deduplicated_witness:
  "Join_init spec_validators ''u'' (Some ''a'') (Some ''='') (Some ''b'') None ''INNER'' None
       (Some ''t'')
     = Inr \<lparr>j_prev_name = Some ''t'', j_name = ''u'', j_left_col = Some ''a'',
            j_op = Some ''='', j_right_col = Some ''b'', j_how = ''INNER'', j_alias = None,
            j_values = [], j_preds = None\<rparr>
   \<and> truthy (Some ''t'')
   \<and> Query_extend spec_validators \<lparr>stages = [STable ''t''], tables = [''t'']\<rparr>
       [SJoin \<lparr>j_prev_name = Some ''t'', j_name = ''u'', j_left_col = Some ''a'',
               j_op = Some ''='', j_right_col = Some ''b'', j_how = ''INNER'', j_alias = None,
               j_values = [], j_preds = None\<rparr>,
        SJoin \<lparr>j_prev_name = Some ''t'', j_name = ''u'', j_left_col = Some ''a'',
               j_op = Some ''='', j_right_col = Some ''b'', j_how = ''INNER'', j_alias = None,
               j_values = [], j_preds = None\<rparr>]
     = Inr \<lparr>stages =
              [STable ''t'',
               SJoin \<lparr>j_prev_name = Some ''t'', j_name = ''u'', j_left_col = Some ''a'',
                      j_op = Some ''='', j_right_col = Some ''b'', j_how = ''INNER'',
                      j_alias = None, j_values = [], j_preds = None\<rparr>],
            tables = [''t'']\<rparr>
   \<and> render
        \<lparr>stages =
           [STable ''t'',
            SJoin \<lparr>j_prev_name = Some ''t'', j_name = ''u'', j_left_col = Some ''a'',
                   j_op = Some ''='', j_right_col = Some ''b'', j_how = ''INNER'',
                   j_alias = None, j_values = [], j_preds = None\<rparr>],
         tables = [''t'']\<rparr> ''?''
     = Inr (''SELECT * FROM \"t\" INNER JOIN \"u\" ON \"t\".\"a\" = \"u\".\"b\"'', [])"
proof -
  let ?j = "\<lparr>j_prev_name = Some ''t'', j_name = ''u'', j_left_col = Some ''a'',
             j_op = Some ''='', j_right_col = Some ''b'', j_how = ''INNER'', j_alias = None,
             j_values = [], j_preds = None\<rparr>"
  let ?q = "\<lparr>stages = [STable ''t''], tables = [''t'']\<rparr>"
  let ?q1 = "\<lparr>stages = [STable ''t'', SJoin ?j], tables = [''t'']\<rparr>"
  have c: "Join_init spec_validators ''u'' (Some ''a'') (Some ''='') (Some ''b'') None ''INNER''
             None (Some ''t'') = Inr ?j"
    by (simp add: init_defs validator_defs case_defs)
  have t: "truthy (Some ''t'')"
    by simp
  have a: "Query_append spec_validators ?q (SJoin ?j) = Inr ?q1"
    by (simp add: append_defs)
  have r: "render ?q1 ''?''
           = Inr (''SELECT * FROM \"t\" INNER JOIN \"u\" ON \"t\".\"a\" = \"u\".\"b\"'', [])"
    by (simp add: render_defs case_defs)
  show ?thesis
    using c t a r explicit_lhs_join_deduplicated [OF c t a]
    by (simp add: ebind_def)
qed

section \<open>Rendering reads and does not write\<close>

text \<open>
  What a later store keeps of an earlier one: its cells, and with them the Query it holds.
\<close>

lemma keeps_refl: "keeps h h"
  by (simp add: keeps_def)

lemma keeps_append: "keeps h (h @ ext)"
  by (simp add: keeps_def)

lemma keeps_length:
  assumes "keeps h h'"
  shows "length h \<le> length h'"
proof -
  have "length (take (length h) h') = length h"
    using assms by (simp only: keeps_def)
  then show ?thesis
    by simp
qed

lemma keeps_nth:
  assumes "keeps h h'" and "a < length h"
  shows "h' ! a = h ! a"
proof -
  have "take (length h) h' ! a = h' ! a"
    using assms(2) by (rule nth_take)
  then show ?thesis
    using assms(1) by (simp only: keeps_def)
qed

lemma keeps_trans:
  assumes a: "keeps h h1" and b: "keeps h1 h2"
  shows "keeps h h2"
proof -
  have l: "length h \<le> length h1"
    using a by (rule keeps_length)
  have "take (length h) h2 = take (length h) (take (length h1) h2)"
    using l by (simp add: min_def)
  also have "\<dots> = take (length h) h1"
    using b by (simp only: keeps_def)
  also have "\<dots> = h"
    using a by (simp only: keeps_def)
  finally show ?thesis
    by (simp only: keeps_def)
qed

lemma cell_at_keeps:
  assumes "keeps h h'" and "cell_at h a = Some c"
  shows "cell_at h' a = Some c"
proof -
  have a: "a < length h" and c: "h ! a = c"
    using assms(2) by (simp_all add: cell_at_def split: if_splits)
  have "a < length h'"
    using a keeps_length [OF assms(1)] by simp
  then show ?thesis
    using keeps_nth [OF assms(1) a] c by (simp add: cell_at_def)
qed

lemma cell_at_append: "cell_at h a = Some c \<Longrightarrow> cell_at (h @ ext) a = Some c"
  by (rule cell_at_keeps [OF keeps_append])

lemma cell_at_new: "cell_at (h @ c # ext) (length h) = Some c"
  by (simp add: cell_at_def)


lemma stage_of_keeps:
  assumes k: "keeps h h'" and s: "stage_of h s = Some s'"
  shows "stage_of h' s = Some s'"
proof (cases s)
  case (HProjection a)
  then show ?thesis
    using s cell_at_keeps [OF k, of a] by (simp split: option.splits cell.splits)
next
  case (HFilter a op vs)
  then show ?thesis
    using s cell_at_keeps [OF k, of a] by (simp split: option.splits cell.splits)
next
  case (HGroup a)
  then show ?thesis
    using s cell_at_keeps [OF k, of a] by (simp split: option.splits cell.splits)
next
  case (HAggregation a g)
  then show ?thesis
    using s cell_at_keeps [OF k, of a] cell_at_keeps [OF k, of g]
    by (simp split: option.splits cell.splits)
next
  case (HOrder a)
  then show ?thesis
    using s cell_at_keeps [OF k, of a] by (simp split: option.splits cell.splits)
next
  case (HCountUnique c)
  show ?thesis
  proof (cases c)
    case None
    then show ?thesis
      using s HCountUnique by simp
  next
    case (Some a)
    then show ?thesis
      using s HCountUnique cell_at_keeps [OF k, of a]
      by (simp split: option.splits cell.splits)
  qed
next
  case (HJoin j)
  show ?thesis
  proof (cases "hj_preds j")
    case None
    then show ?thesis
      using s HJoin by simp
  next
    case (Some a)
    then show ?thesis
      using s HJoin cell_at_keeps [OF k, of a]
      by (simp split: option.splits cell.splits)
  qed
qed (use s in simp_all)

lemma stages_of_keeps:
  "keeps h h' \<Longrightarrow> stages_of h ss = Some ss' \<Longrightarrow> stages_of h' ss = Some ss'"
proof (induction ss arbitrary: ss')
  case Nil
  then show ?case
    by simp
next
  case (Cons s ss)
  obtain t ts where t: "stage_of h s = Some t" and ts: "stages_of h ss = Some ts"
    and e: "ss' = t # ts"
    using Cons.prems(2) by (auto split: option.splits)
  show ?case
    using stage_of_keeps [OF Cons.prems(1) t] Cons.IH [OF Cons.prems(1) ts] e by simp
qed

lemma Query_of_Some:
  "Query_of h q = Some Q \<longleftrightarrow>
     (\<exists>sts. cell_at h (h_stages q) = Some (Stages sts)
            \<and> cell_at h (h_tables q) = Some (Strs (tables Q))
            \<and> stages_of h sts = Some (stages Q))"
  by (cases Q) (auto simp: Query_of_def split: option.splits cell.splits)

lemma Query_of_keeps:
  assumes k: "keeps h h'" and q: "Query_of h q = Some Q"
  shows "Query_of h' q = Some Q"
proof -
  obtain sts where a: "cell_at h (h_stages q) = Some (Stages sts)"
    and b: "cell_at h (h_tables q) = Some (Strs (tables Q))"
    and c: "stages_of h sts = Some (stages Q)"
    using q unfolding Query_of_Some by blast
  show ?thesis
    unfolding Query_of_Some
    using cell_at_keeps [OF k a] cell_at_keeps [OF k b] stages_of_keeps [OF k c] by blast
qed

text \<open>
  Computations that keep the list objects of the store they start on, and a loop that
  appends to a list.
\<close>

lemma yieldsI: "m h = (r, h') \<Longrightarrow> keeps h h' \<Longrightarrow> yields m h r"
  unfolding yields_def by (rule exI [of _ h']) simp

lemma yieldsE:
  assumes "yields m h r"
  obtains h' where "m h = (r, h')" and "keeps h h'"
proof -
  from assms have "\<exists>h'. m h = (r, h') \<and> keeps h h'"
    by (simp only: yields_def)
  then obtain h' where "m h = (r, h') \<and> keeps h h'" ..
  then show thesis
    using that by simp
qed

lemma yields_return: "yields (hreturn x) h (Inr x)"
  by (rule yieldsI [of _ _ _ h]) (simp_all add: hreturn_def keeps_refl)

lemma yields_bind:
  assumes "yields m h (Inr x)" and "\<And>h'. keeps h h' \<Longrightarrow> yields (f x) h' r"
  shows "yields (hbind m f) h r"
proof -
  obtain h1 where m: "m h = (Inr x, h1)" and k1: "keeps h h1"
    using assms(1) by (rule yieldsE)
  obtain h2 where f: "f x h1 = (r, h2)" and k2: "keeps h1 h2"
    using assms(2) [OF k1] by (rule yieldsE)
  have "hbind m f h = (r, h2)"
    using m f by (simp add: hbind_def)
  then show ?thesis
    using keeps_trans [OF k1 k2] by (rule yieldsI)
qed

lemma yields_bind_err:
  assumes "yields m h (Inl e)"
  shows "yields (hbind m f) h (Inl e)"
proof -
  obtain h1 where m: "m h = (Inl e, h1)" and k1: "keeps h h1"
    using assms by (rule yieldsE)
  have "hbind m f h = (Inl e, h1)"
    using m by (simp add: hbind_def)
  then show ?thesis
    using k1 by (rule yieldsI)
qed

lemma for_each_append_str:
  "a < length H \<Longrightarrow> H ! a = Strs acc \<Longrightarrow>
   for_each xs (\<lambda>x. append_str a (g x)) H = (Inr (), H[a := Strs (acc @ map g xs)])"
proof (induction xs arbitrary: H acc)
  case Nil
  then show ?case
    using list_update_id [of H a] by (simp add: hreturn_def)
next
  case (Cons x xs)
  have "for_each xs (\<lambda>x. append_str a (g x)) (H[a := Strs (acc @ [g x])])
        = (Inr (), (H[a := Strs (acc @ [g x])])[a := Strs ((acc @ [g x]) @ map g xs)])"
    using Cons.prems by (intro Cons.IH) simp_all
  moreover have "append_str a (g x) H = (Inr (), H[a := Strs (acc @ [g x])])"
    using Cons.prems by (simp add: append_str_def cell_at_def)
  ultimately show ?case
    by (simp add: hbind_def)
qed

lemma for_each_append_col:
  "a < length H \<Longrightarrow> H ! a = Cols acc \<Longrightarrow>
   for_each xs (\<lambda>x. append_col a (g x)) H = (Inr (), H[a := Cols (acc @ map g xs)])"
proof (induction xs arbitrary: H acc)
  case Nil
  then show ?case
    using list_update_id [of H a] by (simp add: hreturn_def)
next
  case (Cons x xs)
  have "for_each xs (\<lambda>x. append_col a (g x)) (H[a := Cols (acc @ [g x])])
        = (Inr (), (H[a := Cols (acc @ [g x])])[a := Cols ((acc @ [g x]) @ map g xs)])"
    using Cons.prems by (intro Cons.IH) simp_all
  moreover have "append_col a (g x) H = (Inr (), H[a := Cols (acc @ [g x])])"
    using Cons.prems by (simp add: append_col_def cell_at_def)
  ultimately show ?case
    by (simp add: hbind_def)
qed

text \<open>
  Each \<open>render\<close> method, run on a store that holds the lists of its clause, returns what
  the function of the same name returns for these lists, and adds the lists it creates at
  the end of the store.
\<close>

lemma read_cols_eq: "cell_at h a = Some (Cols cs) \<Longrightarrow> read_cols a h = (Inr cs, h)"
  by (simp add: read_cols_def)

lemma read_strs_eq: "cell_at h a = Some (Strs cs) \<Longrightarrow> read_strs a h = (Inr cs, h)"
  by (simp add: read_strs_def)

lemma read_preds_eq: "cell_at h a = Some (Preds cs) \<Longrightarrow> read_preds a h = (Inr cs, h)"
  by (simp add: read_preds_def)

lemma read_aggs_eq: "cell_at h a = Some (Aggs cs) \<Longrightarrow> read_aggs a h = (Inr cs, h)"
  by (simp add: read_aggs_def)

lemma read_ords_eq: "cell_at h a = Some (Ords cs) \<Longrightarrow> read_ords a h = (Inr cs, h)"
  by (simp add: read_ords_def)

lemma read_stages_eq: "cell_at h a = Some (Stages cs) \<Longrightarrow> read_stages a h = (Inr cs, h)"
  by (simp add: read_stages_def)

lemma join_list_eq: "cell_at h a = Some (Strs xs) \<Longrightarrow> join_list sep a h = (Inr (join sep xs), h)"
  by (simp add: join_list_def hbind_def read_strs_eq hreturn_def)

lemma Projection_render_h_refines:
  assumes "cell_at h cols = Some (Cols cs)"
  shows "Projection_render_h cols h = (Inr (Projection_render cs), h @ [Strs (map quote cs)])"
  by (simp add: Projection_render_h_def Projection_render_def hbind_def
      read_cols_eq [OF assms] new_list_def join_list_eq cell_at_new)

lemma Order_render_h_refines:
  assumes "cell_at h cols = Some (Ords cs)"
  shows "Order_render_h cols h
         = (Inr (Order_render cs),
            h @ [Strs (map (\<lambda>col. ''\"'' @ fst col @ ''\" '' @ snd col) cs)])"
proof -
  have r: "read_ords cols (h @ [Strs []]) = (Inr cs, h @ [Strs []])"
    using assms by (intro read_ords_eq cell_at_append)
  have l: "for_each cs (\<lambda>col. append_str (length h) (''\"'' @ fst col @ ''\" '' @ snd col))
             (h @ [Strs []])
           = (Inr (), (h @ [Strs []])
                [length h := Strs ([] @ map (\<lambda>col. ''\"'' @ fst col @ ''\" '' @ snd col) cs)])"
    by (rule for_each_append_str) simp_all
  show ?thesis
    using l
    by (simp add: Order_render_h_def Order_render_def hbind_def new_list_def r
        join_list_eq cell_at_new split_def)
qed

lemma Group_render_h_refines:
  assumes "cell_at h cols = Some (Cols cs)"
  shows "Group_render_h cols h
         = (Inr (Group_render cs),
            h @ [Cols (map group_col cs), Strs (map quote (map group_col cs))])"
proof -
  have r: "read_cols cols (h @ [Cols []]) = (Inr cs, h @ [Cols []])"
    using assms by (intro read_cols_eq cell_at_append)
  have l: "for_each cs (\<lambda>x. append_col (length h) (group_col x)) (h @ [Cols []])
           = (Inr (), (h @ [Cols []])[length h := Cols ([] @ map group_col cs)])"
    by (rule for_each_append_col) simp_all
  have r2: "read_cols (length h) (h @ [Cols (map group_col cs)])
            = (Inr (map group_col cs), h @ [Cols (map group_col cs)])"
    by (rule read_cols_eq) (rule cell_at_new)
  have j: "join_list '', '' (Suc (length h))
             (h @ [Cols (map group_col cs), Strs (map quote (map group_col cs))])
           = (Inr (join '', '' (map quote (map group_col cs))),
              h @ [Cols (map group_col cs), Strs (map quote (map group_col cs))])"
    by (rule join_list_eq) (simp add: cell_at_def nth_append)
  show ?thesis
    using j by (simp add: Group_render_h_def Group_render_def hbind_def new_list_def r l r2)
qed

lemma Aggregation_render_h_refines:
  assumes "cell_at h aggs = Some (Aggs as)" and "cell_at h group_cols = Some (Cols gcs)"
  shows "Aggregation_render_h aggs group_cols h
         = (Inr (Aggregation_render \<lparr>a_aggs = as, a_group_cols = gcs\<rparr>),
            h @ [Strs (map quote gcs @ map agg_expr as)])"
proof -
  have r: "read_aggs aggs (h @ [Strs (map quote gcs)]) = (Inr as, h @ [Strs (map quote gcs)])"
    using assms(1) by (intro read_aggs_eq cell_at_append)
  have l: "for_each as (\<lambda>x. append_str (length h) (agg_expr x)) (h @ [Strs (map quote gcs)])
           = (Inr (), (h @ [Strs (map quote gcs)])
                        [length h := Strs (map quote gcs @ map agg_expr as)])"
    by (rule for_each_append_str) simp_all
  show ?thesis
    by (simp add: Aggregation_render_h_def Aggregation_render_def hbind_def new_list_def
        read_cols_eq [OF assms(2)] r l join_list_eq cell_at_new)
qed

lemma CountUnique_render_h_refines_None:
  "CountUnique_render_h None h = (Inr (CountUnique_render None), h)"
  by (simp add: CountUnique_render_h_def CountUnique_render_def list_truthy_def hbind_def
      hreturn_def)

lemma CountUnique_render_h_refines_Some:
  assumes "cell_at h cols = Some (Cols cs)"
  shows "\<exists>ext. CountUnique_render_h (Some cols) h
               = (Inr (CountUnique_render (Some cs)), h @ ext)"
proof (cases "cs = []")
  case True
  have "CountUnique_render_h (Some cols) h = (Inr (CountUnique_render (Some cs)), h @ [])"
    using True
    by (simp add: CountUnique_render_h_def CountUnique_render_def list_truthy_def hbind_def
        read_cols_eq [OF assms] hreturn_def)
  then show ?thesis ..
next
  case False
  have "CountUnique_render_h (Some cols) h
        = (Inr (CountUnique_render (Some cs)),
           h @ [Strs (map (\<lambda>col. ''\"'' @ colspec_str col @ ''\"'') cs)])"
    using False
    by (simp add: CountUnique_render_h_def CountUnique_render_def list_truthy_def hbind_def
        read_cols_eq [OF assms] hreturn_def new_list_def join_list_eq cell_at_new)
  then show ?thesis ..
qed

lemma Predicate_render_h_refines:
  "\<exists>ext. Predicate_render_h p ph h = (Predicate_render p ph, h @ ext)"
proof (cases "is_null (p_rhs p) \<or> (\<exists>c. p_rhs p = PColumn c) \<or> p_op p \<noteq> ''IN''")
  case True
  have "Predicate_render_h p ph h = (Predicate_render p ph, h @ [])"
    using True
    by (auto simp add: Predicate_render_h_def Predicate_render_def hreturn_def hraise_def
        split: pyval.splits)
  then show ?thesis ..
next
  case False
  show ?thesis
  proof (cases "py_len (p_rhs p)")
    case (Inl e)
    have "Predicate_render_h p ph h = (Predicate_render p ph, h @ [])"
      using False Inl
      by (auto simp add: Predicate_render_h_def Predicate_render_def hraise_def ebind_def
          split: pyval.splits)
    then show ?thesis ..
  next
    case (Inr n)
    have "Predicate_render_h p ph h = (Predicate_render p ph, h @ [Strs (replicate n ph)])"
      using False Inr
      by (auto simp add: Predicate_render_h_def Predicate_render_def hreturn_def ebind_def
          hbind_def new_list_def join_list_eq cell_at_new split: pyval.splits)
    then show ?thesis ..
  qed
qed


lemma render_preds_loop:
  assumes "a < length H" and "H ! a = Strs acc"
  shows "\<exists>H'. render_preds a ps ph H
                 = (unit_of (map_err (\<lambda>p. Predicate_render p ph) ps), H')
              \<and> take a H' = take a H \<and> a < length H'
              \<and> (\<forall>ts. map_err (\<lambda>p. Predicate_render p ph) ps = Inr ts
                    \<longrightarrow> H' ! a = Strs (acc @ ts))"
  using assms
proof (induction ps arbitrary: H acc)
  case Nil
  then show ?case
    by (simp add: render_preds_def hreturn_def)
next
  case (Cons p ps)
  obtain ext where p: "Predicate_render_h p ph H = (Predicate_render p ph, H @ ext)"
    using Predicate_render_h_refines by blast
  show ?case
  proof (cases "Predicate_render p ph")
    case (Inl e)
    have "render_preds a (p # ps) ph H = (Inl e, H @ ext)"
      using p Inl by (simp add: render_preds_def hbind_def)
    then show ?thesis
      using Inl Cons.prems by (simp add: ebind_def)
  next
    case (Inr t)
    let ?H1 = "(H @ ext)[a := Strs (acc @ [t])]"
    have w: "append_str a t (H @ ext) = (Inr (), ?H1)"
      using Cons.prems by (simp add: append_str_def cell_at_def nth_append)
    have s: "render_preds a (p # ps) ph H = render_preds a ps ph ?H1"
      using p Inr w by (simp add: render_preds_def hbind_def)
    have "a < length ?H1" and "?H1 ! a = Strs (acc @ [t])"
      using Cons.prems by simp_all
    from Cons.IH [OF this]
    obtain H' where r: "render_preds a ps ph ?H1
                        = (unit_of (map_err (\<lambda>p. Predicate_render p ph) ps), H')"
      and k: "take a H' = take a ?H1" and l: "a < length H'"
      and v: "\<forall>ts. map_err (\<lambda>p. Predicate_render p ph) ps = Inr ts
                 \<longrightarrow> H' ! a = Strs ((acc @ [t]) @ ts)"
      by blast
    have k': "take a H' = take a H"
      using k Cons.prems(1) by simp
    show ?thesis
    proof (cases "map_err (\<lambda>p. Predicate_render p ph) ps")
      case (Inl e)
      then show ?thesis
        using s r k' l Inr by (simp add: ebind_def)
    next
      case ts: (Inr ts)
      then show ?thesis
        using s r k' l v Inr by (simp add: ebind_def)
    qed
  qed
qed

lemma keeps_take: "take (length h) H' = take (length h) (h @ ext) \<Longrightarrow> keeps h H'"
  by (simp add: keeps_def)

lemma render_preds_fresh:
  "\<exists>H'. render_preds (length h) ps ph (h @ [Strs []])
           = (unit_of (map_err (\<lambda>p. Predicate_render p ph) ps), H')
        \<and> keeps h H'
        \<and> (\<forall>ts. map_err (\<lambda>p. Predicate_render p ph) ps = Inr ts
              \<longrightarrow> cell_at H' (length h) = Some (Strs ts))"
proof -
  have "length h < length (h @ [Strs []])" and "(h @ [Strs []]) ! length h = Strs []"
    by simp_all
  from render_preds_loop [OF this, of ps ph]
  obtain H' where l: "render_preds (length h) ps ph (h @ [Strs []])
                      = (unit_of (map_err (\<lambda>p. Predicate_render p ph) ps), H')"
    and k: "take (length h) H' = take (length h) (h @ [Strs []])"
    and n: "length h < length H'"
    and v: "\<forall>ts. map_err (\<lambda>p. Predicate_render p ph) ps = Inr ts
               \<longrightarrow> H' ! length h = Strs ([] @ ts)"
    by blast
  have "keeps h H'"
    using k by (rule keeps_take)
  moreover have "\<forall>ts. map_err (\<lambda>p. Predicate_render p ph) ps = Inr ts
                   \<longrightarrow> cell_at H' (length h) = Some (Strs ts)"
    using v n by (simp add: cell_at_def)
  ultimately show ?thesis
    using l by blast
qed

lemma Filter_render_h_refines:
  assumes "cell_at h preds = Some (Preds ps)"
  shows "yields (Filter_render_h preds op ph) h
           (Filter_render \<lparr>f_preds = ps, f_op = op, f_values = vs\<rparr> ph)"
proof -
  have r: "read_preds preds (h @ [Strs []]) = (Inr ps, h @ [Strs []])"
    using assms by (intro read_preds_eq cell_at_append)
  obtain H' where l: "render_preds (length h) ps ph (h @ [Strs []])
                      = (unit_of (map_err (\<lambda>p. Predicate_render p ph) ps), H')"
    and k: "keeps h H'"
    and v: "\<forall>ts. map_err (\<lambda>p. Predicate_render p ph) ps = Inr ts
               \<longrightarrow> cell_at H' (length h) = Some (Strs ts)"
    using render_preds_fresh by blast
  show ?thesis
  proof (cases "map_err (\<lambda>p. Predicate_render p ph) ps")
    case (Inl e)
    have "Filter_render_h preds op ph h = (Inl e, H')"
      by (simp add: Filter_render_h_def hbind_def new_list_def r l Inl)
    then show ?thesis
      using k Inl by (intro yieldsI [of _ _ _ H']) (simp_all add: Filter_render_def ebind_def)
  next
    case (Inr ts)
    have c: "cell_at H' (length h) = Some (Strs ts)"
      using v Inr by simp
    have "Filter_render_h preds op ph h
          = (if op = Filter_OR then Inr (''('' @ join op ts @ '')'') else Inr (join op ts), H')"
      by (simp add: Filter_render_h_def hbind_def new_list_def r l Inr join_list_eq [OF c]
          hreturn_def)
    then show ?thesis
      using k Inr by (intro yieldsI [of _ _ _ H']) (simp_all add: Filter_render_def ebind_def)
  qed
qed

lemma Join_render_h_refines:
  assumes "case hj_preds j of None \<Rightarrow> preds = None
           | Some a \<Rightarrow> \<exists>ps. cell_at h a = Some (Preds ps) \<and> preds = Some ps"
  shows "yields (Join_render_h j ph) h (Join_render (Join_of j preds) ph)"
proof (cases "truthy (hj_left_col j)")
  case True
  have "Join_render_h j ph h = (Join_render (Join_of j preds) ph, h)"
    using True
    by (simp add: Join_render_h_def Join_render_def Join_of_def hbind_def hreturn_def
        ebind_def Let_def)
  then show ?thesis
    using keeps_refl by (rule yieldsI)
next
  case False
  show ?thesis
  proof (cases "hj_preds j")
    case None
    have "Join_render_h j ph h = (Join_render (Join_of j preds) ph, h @ [Strs []])"
      using False None assms
      by (simp add: Join_render_h_def Join_render_def Join_of_def hbind_def hraise_def
          new_list_def ebind_def Let_def)
    then show ?thesis
      using keeps_append by (rule yieldsI)
  next
    case (Some a)
    then obtain ps where a: "cell_at h a = Some (Preds ps)" and p: "preds = Some ps"
      using assms by auto
    have r: "read_preds a (h @ [Strs []]) = (Inr ps, h @ [Strs []])"
      using a by (intro read_preds_eq cell_at_append)
    obtain H' where l: "render_preds (length h) ps ph (h @ [Strs []])
                        = (unit_of (map_err (\<lambda>p. Predicate_render p ph) ps), H')"
      and k: "keeps h H'"
      and v: "\<forall>ts. map_err (\<lambda>p. Predicate_render p ph) ps = Inr ts
                 \<longrightarrow> cell_at H' (length h) = Some (Strs ts)"
      using render_preds_fresh by blast
    show ?thesis
    proof (cases "map_err (\<lambda>p. Predicate_render p ph) ps")
      case (Inl e)
      have "Join_render_h j ph h = (Join_render (Join_of j preds) ph, H')"
        using False Some p
        by (simp add: Join_render_h_def Join_render_def Join_of_def hbind_def new_list_def
            r l Inl ebind_def Let_def)
      then show ?thesis
        using k by (rule yieldsI)
    next
      case (Inr ts)
      have c: "cell_at H' (length h) = Some (Strs ts)"
        using v Inr by simp
      have "Join_render_h j ph h = (Join_render (Join_of j preds) ph, H')"
        using False Some p
        by (simp add: Join_render_h_def Join_render_def Join_of_def hbind_def new_list_def
            r l Inr join_list_eq [OF c] hreturn_def ebind_def Let_def)
      then show ?thesis
        using k by (rule yieldsI)
    qed
  qed
qed

lemma stage_render_h_refines:
  assumes "stage_of h s = Some s'"
  shows "yields (stage_render_h s ph) h (stage_render s' ph)"
proof (cases s)
  case (HTable name)
  then show ?thesis
    using assms yields_return [of name h] by auto
next
  case (HProjection a)
  then obtain cs where c: "cell_at h a = Some (Cols cs)" and s': "s' = SProjection cs"
    using assms by (auto split: option.splits cell.splits)
  show ?thesis
    using Projection_render_h_refines [OF c] keeps_append HProjection s'
    by (intro yieldsI) simp_all
next
  case (HFilter a op vs)
  then obtain ps where c: "cell_at h a = Some (Preds ps)"
    and s': "s' = SFilter \<lparr>f_preds = ps, f_op = op, f_values = vs\<rparr>"
    using assms by (auto split: option.splits cell.splits)
  show ?thesis
    using Filter_render_h_refines [OF c, of op ph vs] HFilter s' by simp
next
  case (HGroup a)
  then obtain cs where c: "cell_at h a = Some (Cols cs)" and s': "s' = SGroup cs"
    using assms by (auto split: option.splits cell.splits)
  show ?thesis
    using Group_render_h_refines [OF c] keeps_append HGroup s'
    by (intro yieldsI) simp_all
next
  case (HAggregation a g)
  then obtain as gcs where c: "cell_at h a = Some (Aggs as)"
    and d: "cell_at h g = Some (Cols gcs)"
    and s': "s' = SAggregation \<lparr>a_aggs = as, a_group_cols = gcs\<rparr>"
    using assms by (auto split: option.splits cell.splits)
  show ?thesis
    using Aggregation_render_h_refines [OF c d] keeps_append HAggregation s'
    by (intro yieldsI) simp_all
next
  case (HOrder a)
  then obtain cs where c: "cell_at h a = Some (Ords cs)" and s': "s' = SOrder cs"
    using assms by (auto split: option.splits cell.splits)
  show ?thesis
    using Order_render_h_refines [OF c] keeps_append HOrder s'
    by (intro yieldsI) simp_all
next
  case (HLimit n)
  then show ?thesis
    using assms yields_return [of "str_int n" h] by auto
next
  case (HOffset n)
  then show ?thesis
    using assms yields_return [of "str_int n" h] by auto
next
  case HCount
  then show ?thesis
    using assms yields_return [of "''COUNT(*) AS \"count\"''" h] by auto
next
  case HUnique
  then show ?thesis
    using assms yields_return [of "''SELECT DISTINCT *''" h] by auto
next
  case (HCountUnique c)
  show ?thesis
  proof (cases c)
    case None
    then show ?thesis
      using assms HCountUnique CountUnique_render_h_refines_None [of h] keeps_refl [of h]
      by (intro yieldsI) auto
  next
    case (Some a)
    then obtain cs where c: "cell_at h a = Some (Cols cs)" and s': "s' = SCountUnique (Some cs)"
      using assms HCountUnique by (auto split: option.splits cell.splits)
    obtain ext where "CountUnique_render_h (Some a) h
                      = (Inr (CountUnique_render (Some cs)), h @ ext)"
      using CountUnique_render_h_refines_Some [OF c] by blast
    then show ?thesis
      using keeps_append HCountUnique Some s' by (intro yieldsI) simp_all
  qed
next
  case (HJoin j)
  show ?thesis
  proof (cases "hj_preds j")
    case None
    then have "s' = SJoin (Join_of j None)"
      using assms HJoin by simp
    then show ?thesis
      using Join_render_h_refines [where j = j and preds = None and h = h and ph = ph] None HJoin by simp
  next
    case (Some a)
    then obtain ps where c: "cell_at h a = Some (Preds ps)"
      and s': "s' = SJoin (Join_of j (Some ps))"
      using assms HJoin by (auto split: option.splits cell.splits)
    show ?thesis
      using Join_render_h_refines [where j = j and preds = "Some ps" and h = h and ph = ph] Some c s' HJoin by simp
  qed
qed

text \<open>
  One pass of the loop of \<open>Query.render\<close>, the loop, and the method: on a store that holds
  the Query \<open>Q\<close>, it returns what \<open>render\<close> returns for \<open>Q\<close> and keeps the list objects
  of the store.
\<close>

lemma stage_of_kind:
  "stage_of h s = Some s' \<Longrightarrow>
   (case s of HAggregation _ _ \<Rightarrow> ''HAVING'' | HFilter _ _ _ \<Rightarrow> ''AND'' | _ \<Rightarrow> ''WHERE'')
   = (case s' of SAggregation _ \<Rightarrow> ''HAVING'' | SFilter _ \<Rightarrow> ''AND'' | _ \<Rightarrow> ''WHERE'')
   \<and> (s = HUnique \<longleftrightarrow> s' = SUnique)"
  by (induction h s rule: stage_of.induct) (auto split: option.splits cell.splits)

lemma prev_of_kind:
  assumes "prev_of h hp = Some p"
  shows "(case hp of Some (HAggregation _ _) \<Rightarrow> ''HAVING'' | Some (HFilter _ _ _) \<Rightarrow> ''AND''
          | _ \<Rightarrow> ''WHERE'')
         = (case p of Some (SAggregation _) \<Rightarrow> ''HAVING'' | Some (SFilter _) \<Rightarrow> ''AND''
            | _ \<Rightarrow> ''WHERE'')"
    and "hp = Some HUnique \<longleftrightarrow> p = Some SUnique"
proof -
  show "(case hp of Some (HAggregation _ _) \<Rightarrow> ''HAVING'' | Some (HFilter _ _ _) \<Rightarrow> ''AND''
          | _ \<Rightarrow> ''WHERE'')
         = (case p of Some (SAggregation _) \<Rightarrow> ''HAVING'' | Some (SFilter _) \<Rightarrow> ''AND''
            | _ \<Rightarrow> ''WHERE'')"
  proof (cases hp)
    case None
    then show ?thesis
      using assms by auto
  next
    case (Some s)
    then obtain s' where "stage_of h s = Some s'" and "p = Some s'"
      using assms by (auto split: option.splits)
    then show ?thesis
      using stage_of_kind [of h s s'] Some by simp
  qed
  show "hp = Some HUnique \<longleftrightarrow> p = Some SUnique"
  proof (cases hp)
    case None
    then show ?thesis
      using assms by auto
  next
    case (Some s)
    then obtain s' where "stage_of h s = Some s'" and "p = Some s'"
      using assms by (auto split: option.splits)
    then show ?thesis
      using stage_of_kind [of h s s'] Some by simp
  qed
qed

lemma render_step_prev:
  "render_step ph (query, vals, p) s = Inr (q, v, p') \<Longrightarrow> p' = Some s"
  by (cases s) (auto simp: render_step_def ebind_def split: sum.splits if_splits)

lemma prev_of_keeps:
  assumes "keeps h h'" and "prev_of h hp = Some p"
  shows "prev_of h' hp = Some p"
proof (cases hp)
  case None
  then show ?thesis
    using assms(2) by simp
next
  case (Some s)
  then obtain s' where s': "stage_of h s = Some s'" and "p = Some s'"
    using assms(2) by (auto split: option.splits)
  then show ?thesis
    using stage_of_keeps [OF assms(1) s'] Some by simp
qed

lemma place_text_CountUnique:
  assumes "stage_of h (HCountUnique c) = Some (SCountUnique cs)"
  shows "list_truthy c h = (Inr (cols_or_empty cs \<noteq> []), h)"
proof (cases c)
  case None
  then show ?thesis
    using assms by (simp add: list_truthy_def hreturn_def)
next
  case (Some a)
  then obtain xs where c: "cell_at h a = Some (Cols xs)" and s': "cs = Some xs"
    using assms by (auto split: option.splits cell.splits)
  show ?thesis
    by (simp add: Some s' list_truthy_def hbind_def read_cols_eq [OF c] hreturn_def)
qed

lemma place_text:
  assumes s: "stage_of h s = Some s'" and p: "prev_of h hp = Some p"
    and t: "stage_render s' ph = Inr text"
  shows "place_text (query, vals, hp) s text h
         = (with_prev s (render_step ph (query, vals, p) s'), h)"
proof (cases s)
  case (HCountUnique c)
  then obtain cs where s': "s' = SCountUnique cs"
    using s by (cases c) (auto split: option.splits cell.splits)
  have "list_truthy c h = (Inr (cols_or_empty cs \<noteq> []), h)"
    using s HCountUnique s' by (intro place_text_CountUnique) simp
  moreover have "text = CountUnique_render cs"
    using t s' by simp
  ultimately show ?thesis
    by (simp add: place_text_def HCountUnique s' render_step_def ebind_def hbind_def
        hreturn_def)
qed (use s t prev_of_kind [OF p] in \<open>auto simp: place_text_def render_step_def ebind_def
      Join_of_def hreturn_def split: option.splits cell.splits\<close>)

lemma render_step_h_refines:
  assumes s: "stage_of h s = Some s'" and p: "prev_of h hp = Some p"
  shows "yields (render_step_h ph (query, vals, hp) s) h
           (with_prev s (render_step ph (query, vals, p) s'))"
proof (cases "stage_render s' ph")
  case (Inl e)
  have "yields (hbind (stage_render_h s ph) (place_text (query, vals, hp) s)) h (Inl e)"
    using stage_render_h_refines [OF s, of ph] Inl by (intro yields_bind_err) simp
  then show ?thesis
    using Inl by (simp add: render_step_h_def render_step_def ebind_def)
next
  case (Inr tx)
  have t: "yields (stage_render_h s ph) h (Inr tx)"
    using stage_render_h_refines [OF s, of ph] Inr by simp
  show ?thesis
    unfolding render_step_h_def
  proof (rule yields_bind [OF t])
    fix h' assume k: "keeps h h'"
    have "place_text (query, vals, hp) s tx h'
          = (with_prev s (render_step ph (query, vals, p) s'), h')"
      using stage_of_keeps [OF k s] prev_of_keeps [OF k p] Inr by (rule place_text)
    then show "yields (place_text (query, vals, hp) s tx) h'
                 (with_prev s (render_step ph (query, vals, p) s'))"
      using keeps_refl by (rule yieldsI)
  qed
qed

lemma render_stages_h_refines:
  assumes "stages_of h ss = Some ss'" and "prev_of h hp = Some p"
  shows "\<exists>R. yields (render_stages_h ph ss (query, vals, hp)) h R
             \<and> drop_prev R = drop_prev (render_stages ph ss' (query, vals, p))"
  using assms
proof (induction ss arbitrary: ss' h hp p query vals)
  case Nil
  then show ?case
    using yields_return [of "(query, vals, hp)" h] by auto
next
  case (Cons s ss)
  obtain t ts where t: "stage_of h s = Some t" and ts: "stages_of h ss = Some ts"
    and e: "ss' = t # ts"
    using Cons.prems(1) by (auto split: option.splits)
  note step = render_step_h_refines [OF t Cons.prems(2), of ph query vals]
  show ?case
  proof (cases "render_step ph (query, vals, p) t")
    case (Inl err)
    have "yields (render_stages_h ph (s # ss) (query, vals, hp)) h (Inl err)"
      using step Inl by (simp add: yields_bind_err)
    then show ?thesis
      using Inl e by (intro exI [of _ "Inl err"]) simp
  next
    case (Inr acc)
    obtain q1 v1 p1 where acc: "acc = (q1, v1, p1)"
      by (cases acc)
    have p1: "p1 = Some t"
      using Inr acc by (intro render_step_prev) simp
    obtain h1 where m: "render_step_h ph (query, vals, hp) s h = (Inr (q1, v1, Some s), h1)"
      and k1: "keeps h h1"
      using step Inr acc by (auto elim: yieldsE)
    have "prev_of h1 (Some s) = Some (Some t)"
      using stage_of_keeps [OF k1 t] by simp
    from Cons.IH [OF stages_of_keeps [OF k1 ts] this, of q1 v1]
    obtain R where y: "yields (render_stages_h ph ss (q1, v1, Some s)) h1 R"
      and d: "drop_prev R = drop_prev (render_stages ph ts (q1, v1, Some t))"
      by blast
    obtain h2 where r: "render_stages_h ph ss (q1, v1, Some s) h1 = (R, h2)"
      and k2: "keeps h1 h2"
      using y by (rule yieldsE)
    have "render_stages_h ph (s # ss) (query, vals, hp) h = (R, h2)"
      using m r by (simp add: hbind_def)
    then have "yields (render_stages_h ph (s # ss) (query, vals, hp)) h R"
      using keeps_trans [OF k1 k2] by (rule yieldsI)
    then show ?thesis
      using d Inr acc p1 e by (intro exI [of _ R]) simp
  qed
qed

lemma Query_render_refines:
  assumes "Query_of h self = Some Q"
  shows "yields (Query_render self ph) h (render Q ph)"
proof -
  obtain sts where a: "cell_at h (h_stages self) = Some (Stages sts)"
    and b: "cell_at h (h_tables self) = Some (Strs (tables Q))"
    and c: "stages_of h sts = Some (stages Q)"
    using assms unfolding Query_of_Some by blast
  show ?thesis
  proof (cases "tables Q = []")
    case True
    have "Query_render self ph h = (render Q ph, h)"
      using True
      by (simp add: Query_render_def render_def hbind_def read_strs_eq [OF b] hraise_def)
    then show ?thesis
      using keeps_refl by (rule yieldsI)
  next
    case False
    obtain R where y: "yields (render_stages_h ph sts ([], [], None)) h R"
      and d: "drop_prev R = drop_prev (render_stages ph (stages Q) ([], [], None))"
      using render_stages_h_refines [OF c, of None None ph "[]" "[]"] by auto
    obtain h' where r: "render_stages_h ph sts ([], [], None) h = (R, h')" and k: "keeps h h'"
      using y by (rule yieldsE)
    have "Query_render self ph h = (render Q ph, h')"
    proof (cases R)
      case (Inl e)
      then have "render_stages ph (stages Q) ([], [], None) = Inl e"
        using d by (cases "render_stages ph (stages Q) ([], [], None)") auto
      then show ?thesis
        using False Inl r
        by (simp add: Query_render_def render_def hbind_def read_strs_eq [OF b]
            read_stages_eq [OF a])
    next
      case (Inr acc)
      obtain q v hp where acc: "acc = (q, v, hp)"
        by (cases acc)
      then obtain p where "render_stages ph (stages Q) ([], [], None) = Inr (q, v, p)"
        using d Inr by (cases "render_stages ph (stages Q) ([], [], None)") auto
      then show ?thesis
        using False Inr acc r
        by (simp add: Query_render_def render_def hbind_def read_strs_eq [OF b]
            read_stages_eq [OF a] hreturn_def)
    qed
    then show ?thesis
      using k by (rule yieldsI)
  qed
qed

text \<open>
  C8: let the store \<open>h\<close> hold a Query, the object \<open>self\<close> standing for the Query \<open>Q\<close>.
  Two calls of \<open>render\<close> with the same placeholder, one after the other, return the same
  result: the pair of text and values, or the exception, that \<open>render\<close> gives for \<open>Q\<close>.
  After each call every list object that existed before it is at its address with the
  elements it had (the calls only add the lists they create), so \<open>self\<close> still holds
  \<open>Q\<close>: its stage sequence, its table stack and the lists of its clauses are unchanged.
\<close>

theorem render_deterministic_read_only:
  assumes "Query_of h self = Some Q"
  shows "(case Query_render self ph h of
            (r1, h1) \<Rightarrow>
              (case Query_render self ph h1 of
                 (r2, h2) \<Rightarrow>
                   r1 = render Q ph \<and> r2 = r1
                   \<and> keeps h h1 \<and> Query_of h1 self = Some Q
                   \<and> keeps h1 h2 \<and> Query_of h2 self = Some Q))"
proof -
  obtain h1 where a: "Query_render self ph h = (render Q ph, h1)" and k1: "keeps h h1"
    using Query_render_refines [OF assms] by (rule yieldsE)
  have q1: "Query_of h1 self = Some Q"
    using k1 assms by (rule Query_of_keeps)
  obtain h2 where b: "Query_render self ph h1 = (render Q ph, h2)" and k2: "keeps h1 h2"
    using Query_render_refines [OF q1] by (rule yieldsE)
  have q2: "Query_of h2 self = Some Q"
    using k2 q1 by (rule Query_of_keeps)
  show ?thesis
    using a b k1 k2 q1 q2 by simp
qed

theorem render_deterministic_read_only_witness:
  "Query_of
     [Strs [''people''],
      Preds [\<lparr>p_lhs = LStr ''age'', p_op = ''IN'', p_rhs = PSeq [PInt 1, PInt 2],
              p_values = [PInt 1, PInt 2]\<rparr>],
      Cols [CName ''name''],
      Stages [HTable ''people'', HFilter 1 '' AND '' [PInt 1, PInt 2], HProjection 2]]
     \<lparr>h_stages = 3, h_tables = 0\<rparr>
   = Some \<lparr>stages =
              [STable ''people'',
               SFilter \<lparr>f_preds = [\<lparr>p_lhs = LStr ''age'', p_op = ''IN'',
                                     p_rhs = PSeq [PInt 1, PInt 2],
                                     p_values = [PInt 1, PInt 2]\<rparr>],
                        f_op = '' AND '', f_values = [PInt 1, PInt 2]\<rparr>,
               SProjection [CName ''name'']],
            tables = [''people'']\<rparr>
   \<and> Query_render \<lparr>h_stages = 3, h_tables = 0\<rparr> ''?''
       [Strs [''people''],
        Preds [\<lparr>p_lhs = LStr ''age'', p_op = ''IN'', p_rhs = PSeq [PInt 1, PInt 2],
                p_values = [PInt 1, PInt 2]\<rparr>],
        Cols [CName ''name''],
        Stages [HTable ''people'', HFilter 1 '' AND '' [PInt 1, PInt 2], HProjection 2]]
     = (Inr (''SELECT \"name\" FROM \"people\" WHERE (\"age\" IN (?, ?))'', [PInt 1, PInt 2]),
        [Strs [''people''],
         Preds [\<lparr>p_lhs = LStr ''age'', p_op = ''IN'', p_rhs = PSeq [PInt 1, PInt 2],
                 p_values = [PInt 1, PInt 2]\<rparr>],
         Cols [CName ''name''],
         Stages [HTable ''people'', HFilter 1 '' AND '' [PInt 1, PInt 2], HProjection 2],
         Strs [''(\"age\" IN (?, ?))''],
         Strs [''?'', ''?''],
         Strs [''\"name\"'']])
   \<and> (case Query_render \<lparr>h_stages = 3, h_tables = 0\<rparr> ''?''
            [Strs [''people''],
             Preds [\<lparr>p_lhs = LStr ''age'', p_op = ''IN'', p_rhs = PSeq [PInt 1, PInt 2],
                     p_values = [PInt 1, PInt 2]\<rparr>],
             Cols [CName ''name''],
             Stages [HTable ''people'', HFilter 1 '' AND '' [PInt 1, PInt 2], HProjection 2]] of
         (r1, h1) \<Rightarrow>
           (case Query_render \<lparr>h_stages = 3, h_tables = 0\<rparr> ''?'' h1 of
              (r2, h2) \<Rightarrow>
                r1 = Inr (''SELECT \"name\" FROM \"people\" WHERE (\"age\" IN (?, ?))'',
                          [PInt 1, PInt 2])
                \<and> r2 = r1
                \<and> keeps
                    [Strs [''people''],
                     Preds [\<lparr>p_lhs = LStr ''age'', p_op = ''IN'',
                             p_rhs = PSeq [PInt 1, PInt 2], p_values = [PInt 1, PInt 2]\<rparr>],
                     Cols [CName ''name''],
                     Stages [HTable ''people'', HFilter 1 '' AND '' [PInt 1, PInt 2],
                             HProjection 2]] h1
                \<and> keeps h1 h2))"
proof -
  let ?h = "[Strs [''people''],
             Preds [\<lparr>p_lhs = LStr ''age'', p_op = ''IN'', p_rhs = PSeq [PInt 1, PInt 2],
                     p_values = [PInt 1, PInt 2]\<rparr>],
             Cols [CName ''name''],
             Stages [HTable ''people'', HFilter 1 '' AND '' [PInt 1, PInt 2], HProjection 2]]"
  let ?self = "\<lparr>h_stages = 3, h_tables = 0\<rparr>"
  let ?Q = "\<lparr>stages =
              [STable ''people'',
               SFilter \<lparr>f_preds = [\<lparr>p_lhs = LStr ''age'', p_op = ''IN'',
                                     p_rhs = PSeq [PInt 1, PInt 2],
                                     p_values = [PInt 1, PInt 2]\<rparr>],
                        f_op = '' AND '', f_values = [PInt 1, PInt 2]\<rparr>,
               SProjection [CName ''name'']],
            tables = [''people'']\<rparr>"
  have q: "Query_of ?h ?self = Some ?Q"
    by (simp add: Query_of_def cell_at_def)
  have r: "render ?Q ''?''
           = Inr (''SELECT \"name\" FROM \"people\" WHERE (\"age\" IN (?, ?))'', [PInt 1, PInt 2])"
    by (simp add: render_defs Filter_AND_def Filter_OR_def)
  have e: "Query_render ?self ''?'' ?h
           = (Inr (''SELECT \"name\" FROM \"people\" WHERE (\"age\" IN (?, ?))'',
                   [PInt 1, PInt 2]),
              ?h @ [Strs [''(\"age\" IN (?, ?))''], Strs [''?'', ''?''], Strs [''\"name\"'']])"
    by (simp add: store_defs is_null_def Filter_OR_def quote_str_def)
  show ?thesis
    using q e render_deterministic_read_only [OF q, of "''?''"]
    by (simp add: r split: prod.splits)
qed

section \<open>Null right-hand sides\<close>

lemma lower_null: "lower ''NULL'' = ''null''" "lower ''null'' = ''null''"
  by (simp_all add: case_defs)

text \<open>
  What \<open>Predicate.__init__\<close> does with a right-hand side that is one of the two null
  strings: the marker \<open>[*]\<close> is stripped, the path validated, and the operator checked
  against the five operators a null may have.
\<close>

lemma Predicate_init_null:
  assumes "r = ''NULL'' \<or> r = ''null''"
  shows "Predicate_init V l op (PStr r) =
     (if op \<notin> set COMP_OPS then Inl (InvalidComparisonOperator op)
      else case l of
        LColumn c \<Rightarrow>
          if suffix ''[*]'' (Column_str c) then Inl TypeError
          else if op \<notin> set [''='', ''!='', ''<>'', ''IS'', ''IS NOT'']
               then Inl (InvalidComparisonOperator op)
               else Inr \<lparr>p_lhs = l, p_op = op, p_rhs = PStr r, p_values = []\<rparr>
      | LStr s \<Rightarrow>
          if \<not> validate_path V (if suffix ''[*]'' s then take (length s - 3) s else s)
          then Inl (InvalidPath (if suffix ''[*]'' s then take (length s - 3) s else s))
          else if op \<notin> set [''='', ''!='', ''<>'', ''IS'', ''IS NOT'']
               then Inl (InvalidComparisonOperator op)
               else Inr \<lparr>p_lhs = LStr (if suffix ''[*]'' s then take (length s - 3) s else s),
                         p_op = op, p_rhs = PStr r, p_values = []\<rparr>)"
proof -
  have n: "is_null (PStr r)" "lower r = ''null''"
    using assms by (auto simp: is_null_def lower_null)
  show ?thesis
  proof (cases l)
    case (LStr s)
    then show ?thesis
      using n by (simp add: Predicate_init_def list_property_def ebind_def check_path_def
          del: list.set)
  next
    case (LColumn c)
    then show ?thesis
      using n by (simp add: Predicate_init_def list_property_def ebind_def del: list.set)
  qed
qed

lemma Predicate_init_None: "Predicate_init V l op PNone = Predicate_init V l op (PStr ''NULL'')"
  by (simp add: Predicate_init_def)

lemma Predicate_init_null_lower:
  "Predicate_init V l op (PStr ''null'')
   = map_sum id (\<lambda>p. p\<lparr>p_rhs := PStr ''null''\<rparr>) (Predicate_init V l op (PStr ''NULL''))"
  by (cases l) (simp_all add: Predicate_init_null del: list.set)

lemma Predicate_init_null_fields:
  assumes "Predicate_init V l op (PStr ''NULL'') = Inr p"
  shows "p_values p = [] \<and> p_op p = op \<and> p_rhs p = PStr ''NULL''
         \<and> op \<in> set [''='', ''!='', ''<>'', ''IS'', ''IS NOT'']"
  using assms
  by (cases l) (auto simp add: Predicate_init_null split: if_splits simp del: list.set)

lemma null_render:
  "is_null (p_rhs p) \<Longrightarrow> Predicate_render p ph =
     (if p_op p = ''='' then Inr (''('' @ quote_lhs (p_lhs p) @ '' IS NULL)'')
      else if p_op p = ''!='' \<or> p_op p = ''<>''
           then Inr (''('' @ quote_lhs (p_lhs p) @ '' IS NOT NULL)'')
      else Inl (InvalidComparisonOperator (p_op p)))"
  by (simp add: Predicate_render_def)

text \<open>
  C4, at the failing input: \<open>Predicate("age", "IS", None)\<close> and
  \<open>Predicate("age", "IS NOT", None)\<close> are constructed without error, as the claim says,
  and \<open>render("?")\<close> then raises \<open>InvalidComparisonOperator\<close> for both, where the claim
  says they render as \<open>IS NULL\<close> and \<open>IS NOT NULL\<close>.
\<close>

theorem null_identity_predicate_render_raises:
  "Predicate_init spec_validators (LStr ''age'') ''IS'' PNone
     = Inr \<lparr>p_lhs = LStr ''age'', p_op = ''IS'', p_rhs = PStr ''NULL'', p_values = []\<rparr>
   \<and> Predicate_render
        \<lparr>p_lhs = LStr ''age'', p_op = ''IS'', p_rhs = PStr ''NULL'', p_values = []\<rparr> ''?''
     = Inl (InvalidComparisonOperator ''IS'')
   \<and> Predicate_init spec_validators (LStr ''age'') ''IS NOT'' PNone
     = Inr \<lparr>p_lhs = LStr ''age'', p_op = ''IS NOT'', p_rhs = PStr ''NULL'', p_values = []\<rparr>
   \<and> Predicate_render
        \<lparr>p_lhs = LStr ''age'', p_op = ''IS NOT'', p_rhs = PStr ''NULL'', p_values = []\<rparr> ''?''
     = Inl (InvalidComparisonOperator ''IS NOT'')"
  by (simp add: init_defs validator_defs case_defs Predicate_render_def)

text \<open>
  A right-hand string \<open>NULL\<close> gives exactly the Predicate that \<open>None\<close> gives. A
  right-hand string \<open>null\<close> raises the same exception when \<open>None\<close> raises, and
  otherwise gives the same Predicate up to the spelling kept in \<open>rhs\<close>: it has no bound
  values, its operator is one of the five a null may have, and it renders for every
  placeholder to what the Predicate of \<open>None\<close> renders to: \<open>IS NULL\<close> for \<open>=\<close>,
  \<open>IS NOT NULL\<close> for \<open>!=\<close> and \<open><>\<close>, and an exception for \<open>IS\<close> and \<open>IS NOT\<close>.
\<close>

lemma null_string_same_as_None:
  "Predicate_init V l op (PStr ''NULL'') = Predicate_init V l op PNone \<and>
   (case Predicate_init V l op PNone of
      Inl e \<Rightarrow> Predicate_init V l op (PStr ''null'') = Inl e
    | Inr p \<Rightarrow>
        Predicate_init V l op (PStr ''null'') = Inr (p\<lparr>p_rhs := PStr ''null''\<rparr>)
        \<and> p_values p = [] \<and> p_op p = op
        \<and> op \<in> set [''='', ''!='', ''<>'', ''IS'', ''IS NOT'']
        \<and> (\<forall>ph. Predicate_render (p\<lparr>p_rhs := PStr ''null''\<rparr>) ph = Predicate_render p ph)
        \<and> (\<forall>ph. Predicate_render p ph =
              (if op = ''='' then Inr (''('' @ quote_lhs (p_lhs p) @ '' IS NULL)'')
               else if op = ''!='' \<or> op = ''<>''
                    then Inr (''('' @ quote_lhs (p_lhs p) @ '' IS NOT NULL)'')
               else Inl (InvalidComparisonOperator op))))"
proof (cases "Predicate_init V l op (PStr ''NULL'')")
  case (Inl e)
  then show ?thesis
    by (simp add: Predicate_init_None Predicate_init_null_lower del: list.set)
next
  case (Inr p)
  note f = Predicate_init_null_fields [OF Inr]
  have r1: "Predicate_render (p\<lparr>p_rhs := PStr ''null''\<rparr>) ph = Predicate_render p ph" for ph
    using f by (simp add: null_render is_null_def del: list.set)
  have r2: "Predicate_render p ph =
              (if op = ''='' then Inr (''('' @ quote_lhs (p_lhs p) @ '' IS NULL)'')
               else if op = ''!='' \<or> op = ''<>''
                    then Inr (''('' @ quote_lhs (p_lhs p) @ '' IS NOT NULL)'')
               else Inl (InvalidComparisonOperator op))" for ph
    using f by (simp add: null_render is_null_def del: list.set)
  show ?thesis
    using Inr f r1 r2
    by (simp add: Predicate_init_None Predicate_init_null_lower del: list.set)
qed

text \<open>
  C9, at the failing input: \<open>Predicate("age", "IS", "NULL")\<close> and
  \<open>Predicate("age", "IS NOT", "null")\<close> are constructed without error and bind no
  value, as the claim says of a null string, and \<open>render("?")\<close> then raises
  \<open>InvalidComparisonOperator\<close> for both, where the claim says they render as
  \<open>IS NULL\<close> and \<open>IS NOT NULL\<close>.
\<close>

theorem null_string_identity_render_raises:
  "Predicate_init spec_validators (LStr ''age'') ''IS'' (PStr ''NULL'')
     = Inr \<lparr>p_lhs = LStr ''age'', p_op = ''IS'', p_rhs = PStr ''NULL'', p_values = []\<rparr>
   \<and> Predicate_render
        \<lparr>p_lhs = LStr ''age'', p_op = ''IS'', p_rhs = PStr ''NULL'', p_values = []\<rparr> ''?''
     = Inl (InvalidComparisonOperator ''IS'')
   \<and> Predicate_init spec_validators (LStr ''age'') ''IS NOT'' (PStr ''null'')
     = Inr \<lparr>p_lhs = LStr ''age'', p_op = ''IS NOT'', p_rhs = PStr ''null'', p_values = []\<rparr>
   \<and> Predicate_render
        \<lparr>p_lhs = LStr ''age'', p_op = ''IS NOT'', p_rhs = PStr ''null'', p_values = []\<rparr> ''?''
     = Inl (InvalidComparisonOperator ''IS NOT'')"
  by (simp add: init_defs validator_defs case_defs Predicate_render_def)

section \<open>List properties\<close>

text \<open>
  What lines 109 to 116 do for a path with the marker and a right-hand string that does
  not lower-case to \<open>null\<close>: the marker is stripped, the string wrapped in \<open>%\<close>, and
  \<open>=\<close> and \<open>!=\<close> rewritten.
\<close>

lemma list_property_wraps:
  assumes "op \<in> set COMP_OPS" and "lower r \<noteq> ''null''" and "validate_path V s"
  shows "Predicate_init V (LStr (s @ ''[*]'')) op (PStr r)
         = Inr \<lparr>p_lhs = LStr s,
                p_op = (if op = ''='' then ''LIKE'' else if op = ''!='' then ''NOT LIKE'' else op),
                p_rhs = PStr (''%'' @ r @ ''%''), p_values = [PStr (''%'' @ r @ ''%'')]\<rparr>"
proof -
  have "PStr (''%'' @ r @ ''%'') \<noteq> PStr ''null''" "PStr (''%'' @ r @ ''%'') \<noteq> PStr ''NULL''"
    by simp_all
  then show ?thesis
    using assms
    by (simp add: Predicate_init_def list_property_def ebind_def check_path_def is_null_def
        suffix_def del: list.set)
qed

text \<open>
  C5, at the failing inputs: \<open>Predicate("labels[*]", "=", 5)\<close> raises
  \<open>AttributeError\<close> (\<open>rhs.lower()\<close> on an integer), and
  \<open>Predicate("labels[*]", "=", "Null")\<close> keeps the operator \<open>=\<close> and binds the value
  \<open>Null\<close> unwrapped, although \<open>Null\<close> is not a null marker: the Predicate renders as a
  comparison with a placeholder. The claim says both are wrapped and matched with
  \<open>LIKE\<close>, as \<open>Predicate("labels[*]", "=", "x")\<close> is.
\<close>

theorem list_property_scalar_not_wrapped:
  "Predicate_init spec_validators (LStr ''labels[*]'') ''='' (PInt 5) = Inl AttributeError
   \<and> Predicate_init spec_validators (LStr ''labels[*]'') ''='' (PStr ''Null'')
     = Inr \<lparr>p_lhs = LStr ''labels'', p_op = ''='', p_rhs = PStr ''Null'',
            p_values = [PStr ''Null'']\<rparr>
   \<and> Predicate_render
        \<lparr>p_lhs = LStr ''labels'', p_op = ''='', p_rhs = PStr ''Null'',
         p_values = [PStr ''Null'']\<rparr> ''?''
     = Inr ''(\"labels\" = ?)''
   \<and> Predicate_init spec_validators (LStr ''labels[*]'') ''='' (PStr ''x'')
     = Inr \<lparr>p_lhs = LStr ''labels'', p_op = ''LIKE'', p_rhs = PStr ''%x%'',
            p_values = [PStr ''%x%'']\<rparr>
   \<and> Predicate_render
        \<lparr>p_lhs = LStr ''labels'', p_op = ''LIKE'', p_rhs = PStr ''%x%'',
         p_values = [PStr ''%x%'']\<rparr> ''?''
     = Inr ''(\"labels\" LIKE ?)''"
  by (simp add: init_defs validator_defs case_defs Predicate_render_def quote_str_def)

section \<open>A later Table stage\<close>

lemma render_stages_append:
  "render_stages ph (xs @ ys) acc =
     (case render_stages ph xs acc of Inl e \<Rightarrow> Inl e | Inr acc' \<Rightarrow> render_stages ph ys acc')"
  by (induction xs arbitrary: acc) (auto split: sum.splits)

lemma render_step_vals:
  "render_step ph (t, v0 @ v, p) s =
     map_sum id (\<lambda>(t', v', p'). (t', v0 @ v', p')) (render_step ph (t, v, p) s)"
  by (cases "stage_render s ph"; cases s) (simp_all add: render_step_def ebind_def)

lemma render_stages_vals:
  "render_stages ph sts (t, v0 @ v, p) =
     map_sum id (\<lambda>(t', v', p'). (t', v0 @ v', p')) (render_stages ph sts (t, v, p))"
proof (induction sts arbitrary: t v p)
  case Nil
  then show ?case by simp
next
  case (Cons s sts)
  show ?case
  proof (cases "render_step ph (t, v, p) s")
    case (Inl e)
    then show ?thesis by (simp add: render_step_vals)
  next
    case (Inr acc)
    obtain t' v' p' where acc: "acc = (t', v', p')" by (cases acc)
    with Inr Cons.IH [of t' v' p'] show ?thesis by (simp add: render_step_vals)
  qed
qed

lemma render_step_Table:
  "render_step ph (t, v, p) (STable name)
   = Inr (''FROM \"'' @ name @ ''\"'', v, Some (STable name))"
  by (simp add: render_step_def ebind_def)

text \<open>
  C10: when a Table stage comes after other stages (\<open>pre\<close>) whose rendering succeeds,
  \<open>render\<close> returns what it returns for the Query that starts at this Table stage, the
  text unchanged, with the values bound by the earlier stages in front: the text of the
  earlier stages is gone, their values are kept.
\<close>

theorem later_table_resets_text:
  assumes "stages q = pre @ STable name # post"
    and "tables q \<noteq> []"
    and "render_stages ph pre ([], [], None) = Inr (text0, vals0, prev0)"
  shows "render q ph =
     map_sum id (\<lambda>(text, vals). (text, vals0 @ vals))
       (render (q\<lparr>stages := STable name # post\<rparr>) ph)"
proof -
  have "render_stages ph (stages q) ([], [], None)
        = render_stages ph post (''FROM \"'' @ name @ ''\"'', vals0 @ [], Some (STable name))"
    using assms(1,3) by (simp add: render_stages_append render_step_Table)
  also have "\<dots> = map_sum id (\<lambda>(t', v', p'). (t', vals0 @ v', p'))
        (render_stages ph post (''FROM \"'' @ name @ ''\"'', [], Some (STable name)))"
    by (rule render_stages_vals)
  finally show ?thesis
    using assms(2) by (auto simp: render_def render_step_Table split: sum.splits)
qed

theorem later_table_resets_text_witness:
  "stages \<lparr>stages = [STable ''t'',
                      SFilter \<lparr>f_preds = [\<lparr>p_lhs = LStr ''a'', p_op = ''='', p_rhs = PInt 1,
                                            p_values = [PInt 1]\<rparr>],
                               f_op = '' AND '', f_values = [PInt 1]\<rparr>,
                      STable ''u'', SLimit 5],
           tables = [''t'', ''u'']\<rparr>
     = [STable ''t'',
        SFilter \<lparr>f_preds = [\<lparr>p_lhs = LStr ''a'', p_op = ''='', p_rhs = PInt 1,
                              p_values = [PInt 1]\<rparr>],
                 f_op = '' AND '', f_values = [PInt 1]\<rparr>]
       @ STable ''u'' # [SLimit 5]
   \<and> render_stages ''?''
        [STable ''t'',
         SFilter \<lparr>f_preds = [\<lparr>p_lhs = LStr ''a'', p_op = ''='', p_rhs = PInt 1,
                               p_values = [PInt 1]\<rparr>],
                  f_op = '' AND '', f_values = [PInt 1]\<rparr>]
        ([], [], None)
     = Inr (''FROM \"t\" WHERE (\"a\" = ?)'', [PInt 1],
            Some (SFilter \<lparr>f_preds = [\<lparr>p_lhs = LStr ''a'', p_op = ''='', p_rhs = PInt 1,
                                          p_values = [PInt 1]\<rparr>],
                             f_op = '' AND '', f_values = [PInt 1]\<rparr>))
   \<and> render \<lparr>stages = [STable ''t'',
                        SFilter \<lparr>f_preds = [\<lparr>p_lhs = LStr ''a'', p_op = ''='',
                                              p_rhs = PInt 1, p_values = [PInt 1]\<rparr>],
                                 f_op = '' AND '', f_values = [PInt 1]\<rparr>,
                        STable ''u'', SLimit 5],
             tables = [''t'', ''u'']\<rparr> ''?''
     = Inr (''SELECT * FROM \"u\" LIMIT 5'', [PInt 1])"
proof -
  let ?f = "\<lparr>f_preds = [\<lparr>p_lhs = LStr ''a'', p_op = ''='', p_rhs = PInt 1,
                          p_values = [PInt 1]\<rparr>],
             f_op = '' AND '', f_values = [PInt 1]\<rparr>"
  let ?q = "\<lparr>stages = [STable ''t'', SFilter ?f, STable ''u'', SLimit 5],
             tables = [''t'', ''u'']\<rparr>"
  have s: "stages ?q = [STable ''t'', SFilter ?f] @ STable ''u'' # [SLimit 5]"
    by simp
  have t: "tables ?q \<noteq> []"
    by simp
  have p: "render_stages ''?'' [STable ''t'', SFilter ?f] ([], [], None)
           = Inr (''FROM \"t\" WHERE (\"a\" = ?)'', [PInt 1], Some (SFilter ?f))"
    by (simp add: render_defs)
  have five: "str_int 5 = ''5''"
    by (simp add: str_int_def str_nat.simps)
  have r: "render (?q\<lparr>stages := STable ''u'' # [SLimit 5]\<rparr>) ''?''
           = Inr (''SELECT * FROM \"u\" LIMIT 5'', [])"
    by (simp add: render_defs five)
  show ?thesis
    using s p later_table_resets_text [OF s t p] r by simp
qed

section \<open>Placeholders and bound values of a rendered Query\<close>

text \<open>Templates: filling, the literal text in front, counting a token.\<close>

lemma fill_append [simp]: "fill f (s @ t) = fill f s @ fill f t"
  by (induction f s rule: fill.induct) simp_all

lemma holes_append [simp]: "holes (s @ t) = holes s @ holes t"
  by (induction s rule: holes.induct) simp_all

lemma fill_join_t: "fill f (join_t sep xs) = join sep (map f xs)"
  by (induction sep xs rule: join_t.induct) simp_all

lemma holes_join_t [simp]: "holes (join_t sep xs) = xs"
  by (induction sep xs rule: join_t.induct) simp_all

lemma prefix_fill_lead:
  assumes "\<forall>a \<in> set (holes t). \<exists>r. f a = c # r" and "c \<notin> set xs"
  shows "prefix xs (fill f t) \<longleftrightarrow> prefix xs (lead t)"
  using assms
proof (induction t arbitrary: xs rule: lead.induct)
  case 1
  then show ?case by simp
next
  case (2 s t)
  have "(\<exists>us. xs = s @ us \<and> prefix us (fill f t)) \<longleftrightarrow> (\<exists>us. xs = s @ us \<and> prefix us (lead t))"
  proof -
    have "prefix us (fill f t) \<longleftrightarrow> prefix us (lead t)" if "xs = s @ us" for us
      using that 2 by auto
    then show ?thesis by blast
  qed
  then show ?case
    by (simp add: prefix_append)
next
  case (3 a t)
  then obtain r where "f a = c # r" by auto
  with 3 show ?case
    by (cases xs) auto
qed

lemma drop_lead_fill:
  "n \<le> length (lead t) \<Longrightarrow> fill f (drop_lead n t) = drop n (fill f t)"
  by (induction n t rule: drop_lead.induct) auto

lemma drop_lead_holes:
  "n \<le> length (lead t) \<Longrightarrow> holes (drop_lead n t) = holes t"
  by (induction n t rule: drop_lead.induct) auto

lemma occurrences_skip:
  "c \<notin> set s \<Longrightarrow> occurrences (c # r) (s @ rest) = occurrences (c # r) rest"
  by (induction s) auto

lemma occurrences_hit:
  "occurrences (c # r) ((c # r) @ rest) = 1 + occurrences (c # r) rest"
  by simp

lemma occurrences_fill:
  assumes "c \<notin> set r" and "c \<notin> set (fill (\<lambda>_. []) t)"
  shows "occurrences (c # r) (fill (\<lambda>_. c # r) t) = length (holes t)"
  using assms(2)
proof (induction t rule: holes.induct)
  case 1
  then show ?case by simp
next
  case (2 s t)
  then show ?case by (simp add: occurrences_skip)
next
  case (3 a t)
  then show ?case using occurrences_hit [of c r] by simp
qed

lemma fill_expand: "fill f (expand g T) = fill (\<lambda>a. fill f (g a)) T"
  by (induction g T rule: expand.induct) simp_all

lemma holes_expand: "holes (expand g T) = concat (map (\<lambda>a. holes (g a)) (holes T))"
  by (induction g T rule: expand.induct) simp_all

lemma fill_cong: "(\<And>a. a \<in> set (holes T) \<Longrightarrow> f a = g a) \<Longrightarrow> fill f T = fill g T"
  by (induction T rule: holes.induct) simp_all

text \<open>
  Whether a Predicate renders does not depend on the placeholder, and its text starts
  with an opening parenthesis.
\<close>

lemma Predicate_render_indep:
  assumes "Predicate_render p ph = Inr t"
  shows "\<exists>t'. Predicate_render p ph' = Inr (CHR ''('' # t')"
proof (cases "is_null (p_rhs p)")
  case True
  then show ?thesis
    using assms by (auto simp: Predicate_render_def split: if_splits simp del: list.set)
next
  case False
  show ?thesis
  proof (cases "p_rhs p")
    case (PColumn c)
    then show ?thesis using False by (simp add: Predicate_render_def)
  next
    case PNone
    then show ?thesis
      using False assms by (auto simp: Predicate_render_def ebind_def split: if_splits)
  next
    case (PStr s)
    then show ?thesis
      using False assms by (auto simp: Predicate_render_def ebind_def split: if_splits)
  next
    case (PInt i)
    then show ?thesis
      using False assms by (auto simp: Predicate_render_def ebind_def split: if_splits)
  next
    case (PSeq xs)
    then show ?thesis
      using False assms by (auto simp: Predicate_render_def ebind_def split: if_splits)
  qed
qed

lemma map_const_replicate: "map (\<lambda>_. x) xs = replicate (length xs) x"
  by (induction xs) simp_all

text \<open>
  A well-formed Predicate renders to its template, filled with the placeholder: one
  placeholder for each of its values.
\<close>

lemma pred_template_ok:
  assumes "pred_ok p" and "Predicate_render p ph = Inr t"
  shows "holes (pred_template p) = p_values p"
    and "Predicate_render p ph' = Inr (fill (\<lambda>_. ph') (pred_template p))"
proof -
  have both: "holes (pred_template p) = p_values p
      \<and> Predicate_render p ph' = Inr (fill (\<lambda>_. ph') (pred_template p))"
  proof (cases "is_null (p_rhs p)")
    case True
    then show ?thesis
      using assms
      by (auto simp: pred_template_def pred_ok_def rhs_values_def pred_text_def
          Predicate_render_def split: if_splits simp del: list.set)
  next
    case False
    show ?thesis
    proof (cases "p_rhs p")
      case (PColumn c)
      then show ?thesis
        using False assms(1)
        by (simp add: pred_template_def pred_ok_def rhs_values_def pred_text_def
            Predicate_render_def)
    next
      case PNone
      then show ?thesis
        using False assms(1)
        by (simp add: pred_template_def pred_ok_def rhs_values_def Predicate_render_def)
    next
      case (PStr s)
      then show ?thesis
        using False assms(1)
        by (simp add: pred_template_def pred_ok_def rhs_values_def Predicate_render_def)
    next
      case (PInt i)
      then show ?thesis
        using False assms(1)
        by (simp add: pred_template_def pred_ok_def rhs_values_def Predicate_render_def)
    next
      case (PSeq xs)
      then show ?thesis
        using False assms(1)
        by (simp add: pred_template_def pred_ok_def rhs_values_def Predicate_render_def
            ebind_def fill_join_t map_const_replicate)
    qed
  qed
  from both show "holes (pred_template p) = p_values p" by simp
  from both show "Predicate_render p ph' = Inr (fill (\<lambda>_. ph') (pred_template p))" by simp
qed

text \<open>The constructors leave \<open>values\<close> as well-formedness asks.\<close>

lemma Predicate_init_values:
  assumes "Predicate_init V l op rhs = Inr p"
  shows "p_values p = rhs_values (p_rhs p)"
proof -
  obtain l1 op1 rhs1 where lp:
    "list_property l op (if rhs = PNone then PStr ''NULL'' else rhs) = Inr (l1, op1, rhs1)"
    using assms
    by (cases "list_property l op (if rhs = PNone then PStr ''NULL'' else rhs)")
       (auto simp: Predicate_init_def ebind_def split: if_splits)
  show ?thesis
    using assms lp
    by (cases rhs1)
       (auto simp: Predicate_init_def ebind_def rhs_values_def split: if_splits sum.splits
          simp del: list.set)
qed

lemma Filter_init_ok:
  "list_all pred_ok preds \<Longrightarrow> stage_ok (SFilter (Filter_init preds op))"
  by (simp add: Filter_init_def)

lemma Join_init_values:
  "Join_init V name left_col op right_col preds how alias lhs_name = Inr j \<Longrightarrow>
   j_values j = concat (map p_values (preds_or_empty (j_preds j)))"
  by (auto simp: Join_init_def ebind_def split: sum.splits if_splits)

text \<open>The text of a stage is its template, filled with the texts of its Predicates.\<close>

lemma renders_text: "renders p \<Longrightarrow> Predicate_render p ph = Inr (pred_text p ph)"
  unfolding renders_def pred_text_def
  by (metis old.sum.simps(6))

lemma renders_paren: "renders p \<Longrightarrow> \<exists>r. pred_text p ph = CHR ''('' # r"
  unfolding renders_def pred_text_def
  by (metis old.sum.simps(6))

lemma map_err_Inr:
  "map_err f xs = Inr ys \<Longrightarrow> x \<in> set xs \<Longrightarrow> \<exists>y. f x = Inr y"
  by (induction xs arbitrary: ys) (auto split: sum.splits)

lemma map_err_all:
  "(\<And>x. x \<in> set xs \<Longrightarrow> f x = Inr (g x)) \<Longrightarrow> map_err f xs = Inr (map g xs)"
  by (induction xs) simp_all

lemma map_err_renders:
  assumes "map_err (\<lambda>p. Predicate_render p ph) ps = Inr ts"
  shows "\<forall>p \<in> set ps. renders p"
    and "map_err (\<lambda>p. Predicate_render p ph') ps = Inr (map (\<lambda>p. pred_text p ph') ps)"
proof -
  show r: "\<forall>p \<in> set ps. renders p"
  proof
    fix p assume "p \<in> set ps"
    then obtain t where "Predicate_render p ph = Inr t"
      using map_err_Inr [OF assms] by blast
    then show "renders p"
      unfolding renders_def using Predicate_render_indep by blast
  qed
  show "map_err (\<lambda>p. Predicate_render p ph') ps = Inr (map (\<lambda>p. pred_text p ph') ps)"
    by (rule map_err_all) (simp add: r renders_text)
qed

lemma holes_stage_template: "holes (stage_template s) = stage_preds s"
  by (cases s) (simp_all add: stage_template_def)

lemma stage_template_ok:
  assumes "stage_render s ph = Inr t"
  shows "\<forall>p \<in> set (stage_preds s). renders p"
    and "stage_render s ph' = Inr (fill (\<lambda>p. pred_text p ph') (stage_template s))"
proof -
  have both: "(\<forall>p \<in> set (stage_preds s). renders p)
      \<and> stage_render s ph' = Inr (fill (\<lambda>p. pred_text p ph') (stage_template s))"
  proof (cases s)
    case (SFilter f)
    then obtain ts where ts: "map_err (\<lambda>p. Predicate_render p ph) (f_preds f) = Inr ts"
      using assms
      by (cases "map_err (\<lambda>p. Predicate_render p ph) (f_preds f)")
         (auto simp: Filter_render_def ebind_def)
    show ?thesis
      using SFilter map_err_renders [OF ts]
      by (simp add: Filter_render_def ebind_def stage_template_def fill_join_t Let_def)
  next
    case (SJoin j)
    show ?thesis
    proof (cases "truthy (j_left_col j)")
      case True
      then show ?thesis
        using SJoin by (simp add: stage_template_def stage_text_def Join_render_def ebind_def)
    next
      case False
      then obtain ps where ps: "j_preds j = Some ps"
        using SJoin assms by (cases "j_preds j") (auto simp: Join_render_def ebind_def)
      obtain ts where ts: "map_err (\<lambda>p. Predicate_render p ph) ps = Inr ts"
        using SJoin assms False ps
        by (cases "map_err (\<lambda>p. Predicate_render p ph) ps")
           (auto simp: Join_render_def ebind_def)
      show ?thesis
        using SJoin False ps map_err_renders [OF ts]
        by (simp add: Join_render_def ebind_def stage_template_def fill_join_t Let_def)
    qed
  qed (simp_all add: stage_template_def stage_text_def)
  from both show "\<forall>p \<in> set (stage_preds s). renders p" by simp
  from both show "stage_render s ph' = Inr (fill (\<lambda>p. pred_text p ph') (stage_template s))"
    by simp
qed

text \<open>
  One pass of the loop: whether the text so far starts with \<open>SELECT \<close> is decided by
  the literal text in front of the first Predicate, so the pass turns a template into
  a template, whatever the placeholder.
\<close>

lemma prefix_fill_renders:
  assumes "\<forall>p \<in> set (holes T). renders p" and "CHR ''('' \<notin> set xs"
  shows "prefix xs (fill (\<lambda>p. pred_text p ph) T) \<longleftrightarrow> prefix xs (lead T)"
proof (rule prefix_fill_lead [where c = "CHR ''(''"])
  show "\<forall>a\<in>set (holes T). \<exists>r. pred_text a ph = CHR ''('' # r"
    using assms(1) renders_paren by blast
  show "CHR ''('' \<notin> set xs" by (rule assms(2))
qed

lemma prefix_length: "prefix xs ys \<Longrightarrow> length xs \<le> length ys"
  by (auto simp: prefix_def)

lemma step_Unique:
  assumes "\<forall>p \<in> set (holes T). renders p"
  shows "render_step ph (fill (\<lambda>p. pred_text p ph) T, vs, prev) SUnique
         = Inr (fill (\<lambda>p. pred_text p ph) (step_template prev T SUnique), vs, Some SUnique)"
proof -
  have p: "prefix ''SELECT '' (fill (\<lambda>p. pred_text p ph) T) \<longleftrightarrow> prefix ''SELECT '' (lead T)"
    using assms by (rule prefix_fill_renders) simp
  show ?thesis
  proof (cases "prefix ''SELECT '' (lead T)")
    case True
    then have "7 \<le> length (lead T)"
      using prefix_length by fastforce
    then show ?thesis
      using True p
      by (simp add: render_step_def ebind_def step_template_def drop_lead_fill)
  next
    case False
    then show ?thesis
      using p by (simp add: render_step_def ebind_def step_template_def)
  qed
qed

lemma step_ok:
  assumes "stage_render s ph0 = Inr t0" and "\<forall>p \<in> set (holes T). renders p"
  shows "render_step ph (fill (\<lambda>p. pred_text p ph) T, vs, prev) s
         = Inr (fill (\<lambda>p. pred_text p ph) (step_template prev T s), vs @ stage_values s, Some s)"
proof (cases "s = SUnique")
  case True
  then show ?thesis using step_Unique [OF assms(2)] by simp
next
  case False
  have r: "stage_render s ph = Inr (fill (\<lambda>p. pred_text p ph) (stage_template s))"
    using assms(1) by (rule stage_template_ok)
  show ?thesis
    using False r
    by (cases s) (simp_all add: render_step_def ebind_def step_template_def)
qed

lemma step_holes:
  "holes (step_template prev T s) = (if is_Table s then [] else holes T @ stage_preds s)"
proof (cases "s = SUnique")
  case True
  show ?thesis
  proof (cases "prefix ''SELECT '' (lead T)")
    case True
    then have "7 \<le> length (lead T)"
      using prefix_length by fastforce
    then show ?thesis
      using True \<open>s = SUnique\<close> by (simp add: step_template_def drop_lead_holes)
  next
    case False
    then show ?thesis
      using \<open>s = SUnique\<close> by (simp add: step_template_def)
  qed
next
  case False
  then show ?thesis
    by (cases s) (simp_all add: step_template_def holes_stage_template)
qed

lemma render_step_success:
  "render_step ph acc s = Inr r \<Longrightarrow> \<exists>t. stage_render s ph = Inr t"
  by (cases "stage_render s ph"; cases acc) (auto simp: render_step_def ebind_def)

text \<open>The loop, and the Predicates it renders when the Table stages come first.\<close>

lemma loop_ok:
  assumes "render_stages ph0 sts (fill (\<lambda>p. pred_text p ph0) T, vs, prev) = Inr r"
    and "\<forall>p \<in> set (holes T). renders p"
  shows "(\<forall>ph. render_stages ph sts (fill (\<lambda>p. pred_text p ph) T, vs, prev)
            = Inr (fill (\<lambda>p. pred_text p ph) (stages_template sts prev T),
                   vs @ concat (map stage_values sts), last_prev sts prev))
         \<and> (\<forall>p \<in> set (holes (stages_template sts prev T)). renders p)"
  using assms
proof (induction sts arbitrary: T vs prev)
  case Nil
  then show ?case by simp
next
  case (Cons s sts)
  let ?f = "\<lambda>ph p. pred_text p ph"
  obtain acc where acc: "render_step ph0 (fill (?f ph0) T, vs, prev) s = Inr acc"
    using Cons.prems(1) by (cases "render_step ph0 (fill (?f ph0) T, vs, prev) s") auto
  then obtain t0 where t0: "stage_render s ph0 = Inr t0"
    using render_step_success by blast
  have step: "render_step ph (fill (?f ph) T, vs, prev) s
         = Inr (fill (?f ph) (step_template prev T s), vs @ stage_values s, Some s)" for ph
    using t0 Cons.prems(2) by (rule step_ok)
  have h: "\<forall>p \<in> set (holes (step_template prev T s)). renders p"
    using Cons.prems(2) stage_template_ok(1) [OF t0] by (auto simp: step_holes)
  have rest: "render_stages ph0 sts
        (fill (?f ph0) (step_template prev T s), vs @ stage_values s, Some s) = Inr r"
    using Cons.prems(1) step [of ph0] by simp
  from Cons.IH [OF rest h] show ?case
    by (simp add: step)
qed

lemma no_table_preds:
  "holes T \<noteq> [] \<longrightarrow> \<not> list_ex is_Table sts \<Longrightarrow> tables_first sts \<Longrightarrow>
   holes (stages_template sts prev T) = holes T @ concat (map stage_preds sts)"
proof (induction sts arbitrary: T prev)
  case Nil
  then show ?case by simp
next
  case (Cons s sts)
  have h: "holes (step_template prev T s) = holes T @ stage_preds s"
    using Cons.prems(1) by (cases s) (auto simp: step_holes)
  have c: "holes (step_template prev T s) \<noteq> [] \<longrightarrow> \<not> list_ex is_Table sts"
    using Cons.prems h by auto
  have "tables_first sts"
    using Cons.prems(2) by simp
  from Cons.IH [OF c this] h show ?case by simp
qed

lemma stage_ok_values:
  "stage_ok s \<Longrightarrow> stage_values s = concat (map p_values (stage_preds s))"
  by (cases s) auto

lemma stages_ok_values:
  "list_all stage_ok sts \<Longrightarrow>
   concat (map stage_values sts) = concat (map p_values (concat (map stage_preds sts)))"
  by (induction sts) (simp_all add: stage_ok_values)

lemma stage_ok_preds: "stage_ok s \<Longrightarrow> p \<in> set (stage_preds s) \<Longrightarrow> pred_ok p"
  by (cases s) (auto simp: list_all_iff split: if_splits)

lemma holes_final_template [simp]: "holes (final_template T) = holes T"
  by (simp add: final_template_def)

lemma render_template:
  assumes "render q ph0 = Inr (text, vals)"
  shows "render q ph
         = Inr (fill (\<lambda>p. pred_text p ph) (final_template (stages_template (stages q) None [])),
                concat (map stage_values (stages q)))"
    and "\<forall>p \<in> set (holes (stages_template (stages q) None [])). renders p"
proof -
  let ?T = "stages_template (stages q) None []"
  have t: "tables q \<noteq> []"
    using assms by (auto simp: render_def split: if_splits)
  obtain r where "render_stages ph0 (stages q) ([], [], None) = Inr r"
    using assms t by (cases "render_stages ph0 (stages q) ([], [], None)") (auto simp: render_def)
  then have "render_stages ph0 (stages q) (fill (\<lambda>p. pred_text p ph0) [], [], None) = Inr r"
    by simp
  from loop_ok [OF this] have loop:
    "render_stages ph (stages q) ([], [], None)
       = Inr (fill (\<lambda>p. pred_text p ph) ?T, concat (map stage_values (stages q)),
              last_prev (stages q) None)"
    and rn: "\<forall>p \<in> set (holes ?T). renders p"
    by simp_all
  have "prefix ''SELECT'' (fill (\<lambda>p. pred_text p ph) ?T) \<longleftrightarrow> prefix ''SELECT'' (lead ?T)"
    using rn by (rule prefix_fill_renders) simp
  then show "render q ph
         = Inr (fill (\<lambda>p. pred_text p ph) (final_template ?T),
                concat (map stage_values (stages q)))"
    using t loop by (simp add: render_def final_template_def)
  show "\<forall>p \<in> set (holes ?T). renders p"
    by (rule rn)
qed

text \<open>
  C1, as the claim states it, fails, in each of these ways. A Table stage after a
  Filter: the text of the Filter is gone, its value stays (no placeholder, one value).
  \<open>IN\<close> with a string on the right: one placeholder for each character, one value.
  The placeholder token \<open>E\<close>: it occurs twice in the text of a Query that binds
  nothing. A list on the right of \<open>=\<close>: one placeholder, two values. A Join given
  both a column triple and a Predicate: the value is gathered, the Predicate is not
  rendered.
\<close>

theorem placeholders_and_values_differ:
  "render \<lparr>stages = [STable ''t'',
                     SFilter \<lparr>f_preds = [\<lparr>p_lhs = LStr ''a'', p_op = ''='', p_rhs = PInt 1,
                                           p_values = [PInt 1]\<rparr>],
                              f_op = '' AND '', f_values = [PInt 1]\<rparr>,
                     STable ''u''],
          tables = [''t'', ''u'']\<rparr> ''?''
     = Inr (''SELECT * FROM \"u\"'', [PInt 1])
   \<and> occurrences ''?'' ''SELECT * FROM \"u\"'' = 0
   \<and> Predicate_init spec_validators (LStr ''a'') ''IN'' (PStr ''xyz'')
     = Inr \<lparr>p_lhs = LStr ''a'', p_op = ''IN'', p_rhs = PStr ''xyz'', p_values = [PStr ''xyz'']\<rparr>
   \<and> render \<lparr>stages = [STable ''t'',
                       SFilter \<lparr>f_preds = [\<lparr>p_lhs = LStr ''a'', p_op = ''IN'',
                                             p_rhs = PStr ''xyz'', p_values = [PStr ''xyz'']\<rparr>],
                                f_op = '' AND '', f_values = [PStr ''xyz'']\<rparr>],
            tables = [''t'']\<rparr> ''?''
     = Inr (''SELECT * FROM \"t\" WHERE (\"a\" IN (?, ?, ?))'', [PStr ''xyz''])
   \<and> occurrences ''?'' ''SELECT * FROM \"t\" WHERE (\"a\" IN (?, ?, ?))'' = 3
   \<and> render \<lparr>stages = [STable ''t''], tables = [''t'']\<rparr> ''E''
     = Inr (''SELECT * FROM \"t\"'', [])
   \<and> occurrences ''E'' ''SELECT * FROM \"t\"'' = 2
   \<and> Predicate_init spec_validators (LStr ''a'') ''='' (PSeq [PInt 1, PInt 2])
     = Inr \<lparr>p_lhs = LStr ''a'', p_op = ''='', p_rhs = PSeq [PInt 1, PInt 2],
            p_values = [PInt 1, PInt 2]\<rparr>
   \<and> render \<lparr>stages = [STable ''t'',
                       SFilter \<lparr>f_preds = [\<lparr>p_lhs = LStr ''a'', p_op = ''='',
                                             p_rhs = PSeq [PInt 1, PInt 2],
                                             p_values = [PInt 1, PInt 2]\<rparr>],
                                f_op = '' AND '', f_values = [PInt 1, PInt 2]\<rparr>],
            tables = [''t'']\<rparr> ''?''
     = Inr (''SELECT * FROM \"t\" WHERE (\"a\" = ?)'', [PInt 1, PInt 2])
   \<and> occurrences ''?'' ''SELECT * FROM \"t\" WHERE (\"a\" = ?)'' = 1
   \<and> Join_init spec_validators ''u'' (Some ''a'') (Some ''='') (Some ''b'')
        (Some [\<lparr>p_lhs = LStr ''c'', p_op = ''='', p_rhs = PInt 1, p_values = [PInt 1]\<rparr>])
        ''INNER'' None (Some ''t'')
     = Inr \<lparr>j_prev_name = Some ''t'', j_name = ''u'', j_left_col = Some ''a'',
            j_op = Some ''='', j_right_col = Some ''b'', j_how = ''INNER'', j_alias = None,
            j_values = [PInt 1],
            j_preds = Some [\<lparr>p_lhs = LStr ''c'', p_op = ''='', p_rhs = PInt 1,
                             p_values = [PInt 1]\<rparr>]\<rparr>
   \<and> render \<lparr>stages = [STable ''t'',
                       SJoin \<lparr>j_prev_name = Some ''t'', j_name = ''u'', j_left_col = Some ''a'',
                              j_op = Some ''='', j_right_col = Some ''b'', j_how = ''INNER'',
                              j_alias = None, j_values = [PInt 1],
                              j_preds = Some [\<lparr>p_lhs = LStr ''c'', p_op = ''='',
                                               p_rhs = PInt 1, p_values = [PInt 1]\<rparr>]\<rparr>],
            tables = [''t'']\<rparr> ''?''
     = Inr (''SELECT * FROM \"t\" INNER JOIN \"u\" ON \"t\".\"a\" = \"u\".\"b\"'', [PInt 1])
   \<and> occurrences ''?'' ''SELECT * FROM \"t\" INNER JOIN \"u\" ON \"t\".\"a\" = \"u\".\"b\"'' = 0"
  by (simp add: render_defs init_defs validator_defs case_defs)

text \<open>
  C1, amended: take a Query whose stages are well-formed and in which no Table stage
  comes after a Filter or Join that renders a Predicate, and let \<open>render\<close> return
  \<open>(text, vals)\<close> for the placeholder \<open>ph\<close>. Then \<open>vals\<close> is the concatenation, in
  stage order, of the values of the stages, which only Filter and Join stages have; it
  is also the concatenation of the values of the rendered Predicates, in the order they
  are rendered. For every placeholder the text is one and the same template, filled with
  the texts of these Predicates in that order, and the text of each Predicate is a
  template with one hole for each of its values, filled with the placeholder: so the
  text is a template with one hole for each bound value, from left to right, filled
  with the placeholder. For a token \<open>ph\<close> whose first character occurs neither in the
  rest of the token nor in the text rendered with the empty placeholder (the SQL around
  the placeholders), the number of occurrences of \<open>ph\<close> in \<open>text\<close> is the number of
  bound values.
\<close>

theorem render_placeholders_match_values:
  assumes ok: "list_all stage_ok (stages q)"
    and tf: "tables_first (stages q)"
    and r: "render q ph = Inr (text, vals)"
  shows "vals = concat (map stage_values (stages q))
    \<and> vals = concat (map p_values (query_preds q))
    \<and> (\<exists>T. holes T = query_preds q
          \<and> (\<forall>ph'. render q ph' = Inr (fill (\<lambda>p. pred_text p ph') T, vals)))
    \<and> (\<forall>p \<in> set (query_preds q). \<exists>S. holes S = p_values p
          \<and> (\<forall>ph'. Predicate_render p ph' = Inr (fill (\<lambda>_. ph') S)))
    \<and> (\<exists>S. holes S = vals \<and> (\<forall>ph'. render q ph' = Inr (fill (\<lambda>_. ph') S, vals)))
    \<and> (\<forall>c r t0. ph = c # r \<and> c \<notin> set r \<and> render q [] = Inr (t0, vals) \<and> c \<notin> set t0
          \<longrightarrow> occurrences ph text = length vals)"
proof -
  let ?T0 = "stages_template (stages q) None []"
  let ?T = "final_template ?T0"
  let ?S = "expand pred_template ?T"
  note rt = render_template [OF r]
  have v1: "vals = concat (map stage_values (stages q))"
    using rt(1) [of ph] r by simp
  have hT: "holes ?T = query_preds q"
    using no_table_preds [of "[]" "stages q" None] tf by (simp add: query_preds_def)
  have v2: "vals = concat (map p_values (query_preds q))"
    using v1 stages_ok_values [OF ok] by (simp add: query_preds_def)
  have rT: "render q ph' = Inr (fill (\<lambda>p. pred_text p ph') ?T, vals)" for ph'
    using rt(1) [of ph'] v1 by simp
  have pok: "pred_ok p \<and> renders p" if pq: "p \<in> set (query_preds q)" for p
  proof -
    obtain s where "s \<in> set (stages q)" "p \<in> set (stage_preds s)"
      using pq by (auto simp: query_preds_def)
    then have "pred_ok p"
      using ok stage_ok_preds by (auto simp: list_all_iff)
    moreover have "renders p"
      using pq rt(2) hT by simp
    ultimately show ?thesis by simp
  qed
  have pt: "holes (pred_template p) = p_values p
            \<and> (\<forall>ph'. Predicate_render p ph' = Inr (fill (\<lambda>_. ph') (pred_template p)))"
    if pq: "p \<in> set (query_preds q)" for p
  proof -
    obtain t where "Predicate_render p ph = Inr t"
      using pok [OF pq] renders_text by blast
    then show ?thesis
      using pok [OF pq] pred_template_ok by blast
  qed
  have hS: "holes ?S = vals"
    using pt hT v2 by (simp add: holes_expand cong: map_cong)
  have fS: "fill (\<lambda>_. ph') ?S = fill (\<lambda>p. pred_text p ph') ?T" for ph'
  proof -
    have "fill (\<lambda>a. fill (\<lambda>_. ph') (pred_template a)) ?T = fill (\<lambda>p. pred_text p ph') ?T"
    proof (rule fill_cong)
      fix a assume "a \<in> set (holes ?T)"
      then have "a \<in> set (query_preds q)" using hT by simp
      from pt [OF this] show "fill (\<lambda>_. ph') (pred_template a) = pred_text a ph'"
        by (simp add: pred_text_def)
    qed
    then show ?thesis by (simp add: fill_expand)
  qed
  have rS: "render q ph' = Inr (fill (\<lambda>_. ph') ?S, vals)" for ph'
    using rT fS by simp
  have occ: "occurrences ph text = length vals"
    if "ph = c # r" "c \<notin> set r" "render q [] = Inr (t0, vals)" "c \<notin> set t0" for c r t0
  proof -
    have "t0 = fill (\<lambda>_. []) ?S"
      using that(3) rS [of "[]"] by simp
    then have "occurrences (c # r) (fill (\<lambda>_. c # r) ?S) = length (holes ?S)"
      using that(2,4) occurrences_fill by blast
    moreover have "text = fill (\<lambda>_. c # r) ?S"
      using r rS [of ph] that(1) by simp
    ultimately show ?thesis
      using that(1) hS by simp
  qed
  show ?thesis
    using v1 v2 hT rT pt rS hS occ by blast
qed

theorem render_placeholders_match_values_witness:
  "list_all stage_ok
     (stages \<lparr>stages = [STable ''people'',
                        SFilter \<lparr>f_preds = [\<lparr>p_lhs = LStr ''age'', p_op = ''>'',
                                              p_rhs = PInt 30, p_values = [PInt 30]\<rparr>,
                                            \<lparr>p_lhs = LStr ''name'', p_op = ''IN'',
                                              p_rhs = PSeq [PStr ''a'', PStr ''b''],
                                              p_values = [PStr ''a'', PStr ''b'']\<rparr>],
                                 f_op = '' AND '',
                                 f_values = [PInt 30, PStr ''a'', PStr ''b'']\<rparr>],
             tables = [''people'']\<rparr>)
   \<and> tables_first
     (stages \<lparr>stages = [STable ''people'',
                        SFilter \<lparr>f_preds = [\<lparr>p_lhs = LStr ''age'', p_op = ''>'',
                                              p_rhs = PInt 30, p_values = [PInt 30]\<rparr>,
                                            \<lparr>p_lhs = LStr ''name'', p_op = ''IN'',
                                              p_rhs = PSeq [PStr ''a'', PStr ''b''],
                                              p_values = [PStr ''a'', PStr ''b'']\<rparr>],
                                 f_op = '' AND '',
                                 f_values = [PInt 30, PStr ''a'', PStr ''b'']\<rparr>],
             tables = [''people'']\<rparr>)
   \<and> render \<lparr>stages = [STable ''people'',
                       SFilter \<lparr>f_preds = [\<lparr>p_lhs = LStr ''age'', p_op = ''>'',
                                             p_rhs = PInt 30, p_values = [PInt 30]\<rparr>,
                                           \<lparr>p_lhs = LStr ''name'', p_op = ''IN'',
                                             p_rhs = PSeq [PStr ''a'', PStr ''b''],
                                             p_values = [PStr ''a'', PStr ''b'']\<rparr>],
                                f_op = '' AND '',
                                f_values = [PInt 30, PStr ''a'', PStr ''b'']\<rparr>],
            tables = [''people'']\<rparr> ''?''
     = Inr (''SELECT * FROM \"people\" WHERE (\"age\" > ?) AND (\"name\" IN (?, ?))'',
            [PInt 30, PStr ''a'', PStr ''b''])
   \<and> occurrences ''?''
        ''SELECT * FROM \"people\" WHERE (\"age\" > ?) AND (\"name\" IN (?, ?))''
     = length [PInt 30, PStr ''a'', PStr ''b'']"
proof -
  let ?q = "\<lparr>stages = [STable ''people'',
                        SFilter \<lparr>f_preds = [\<lparr>p_lhs = LStr ''age'', p_op = ''>'',
                                              p_rhs = PInt 30, p_values = [PInt 30]\<rparr>,
                                            \<lparr>p_lhs = LStr ''name'', p_op = ''IN'',
                                              p_rhs = PSeq [PStr ''a'', PStr ''b''],
                                              p_values = [PStr ''a'', PStr ''b'']\<rparr>],
                                 f_op = '' AND '',
                                 f_values = [PInt 30, PStr ''a'', PStr ''b'']\<rparr>],
             tables = [''people'']\<rparr>"
  let ?text = "''SELECT * FROM \"people\" WHERE (\"age\" > ?) AND (\"name\" IN (?, ?))''"
  let ?vals = "[PInt 30, PStr ''a'', PStr ''b'']"
  have ok: "list_all stage_ok (stages ?q)"
    by (simp add: pred_ok_def rhs_values_def is_null_def)
  have tf: "tables_first (stages ?q)"
    by simp
  have r: "render ?q ''?'' = Inr (?text, ?vals)"
    by (simp add: render_defs)
  have r0: "render ?q []
            = Inr (''SELECT * FROM \"people\" WHERE (\"age\" > ) AND (\"name\" IN (, ))'', ?vals)"
    by (simp add: render_defs)
  have "occurrences ''?'' ?text = length ?vals"
    using render_placeholders_match_values [OF ok tf r] r0 by simp
  then show ?thesis
    using ok tf r by simp
qed

end
